theory Spec2Isabelle
  imports Main "HOL-Library.AList" "HOL-Library.Sublist"
begin

section \<open>Reflex: a virtual-tree reconciliation engine (src/reflex.js)\<close>

text \<open>
  The engine builds virtual nodes with \<open>h\<close> and synchronises a live document tree with
  \<open>update\<close>. The embedding below follows src/reflex.js function by function. The live
  tree is owned by the browser's document; it is modelled as a tree of values, and a
  function that mutates its first argument (\<open>target\<close>, \<open>parent\<close>) returns that argument's
  state after the call. An exception does not undo the mutations made before it, so a
  result carries the state and the exception side by side. What the engine reads of the
  page it runs in, and cannot know from the file, is a parameter (\<open>window\<close>, below).
\<close>

subsection \<open>JavaScript values that occur as property values\<close>

text \<open>
  \<open>JNum\<close> stands for the integer-valued numbers, \<open>JRef\<close> for an object or a function,
  known by its identity. The engine only ever tests such a value for truthiness and
  compares two of them with \<open>!==\<close>.
\<close>

datatype jsval = JUndefined | JNull | JBool bool | JNum int | JNaN | JStr string | JRef nat

fun truthy :: "jsval \<Rightarrow> bool" where
  "truthy JUndefined = False"
| "truthy JNull = False"
| "truthy (JBool b) = b"
| "truthy (JNum n) = (n \<noteq> 0)"
| "truthy JNaN = False"
| "truthy (JStr s) = (s \<noteq> [])"
| "truthy (JRef r) = True"

definition strict_eq :: "jsval \<Rightarrow> jsval \<Rightarrow> bool" where
  "strict_eq a b = (a = b \<and> a \<noteq> JNaN)"

subsection \<open>Virtual nodes\<close>

text \<open>
  A property object is the list of its own enumerable properties in the order
  \<open>Object.keys\<close> enumerates them (creation order; names that are array indices, which
  JavaScript enumerates first, are not valid attribute names and are not modelled apart).
  \<open>get\<close> reads an own property and gives \<open>undefined\<close> for a name the object does not
  have (names inherited from \<open>Object.prototype\<close> are not modelled).
  A virtual node is a string or an object \<open>{type, props, children}\<close>. Where the source
  may hold \<open>undefined\<close> in place of a node, the model has \<open>None\<close>.
\<close>

type_synonym props = "(string \<times> jsval) list"

datatype vnode = VText string | VElem string props "vnode list"

definition h :: "string \<Rightarrow> props option \<Rightarrow> vnode list \<Rightarrow> vnode" where
  "h type props children = VElem type (case props of None \<Rightarrow> [] | Some p \<Rightarrow> p) children"

definition Object_keys :: "props \<Rightarrow> string list" where
  "Object_keys obj = map fst obj"

definition get :: "props \<Rightarrow> string \<Rightarrow> jsval" where
  "get obj name = (case map_of obj name of None \<Rightarrow> JUndefined | Some v \<Rightarrow> v)"

definition Object_assign :: "props \<Rightarrow> props list \<Rightarrow> props" where
  "Object_assign tgt sources = fold (\<lambda>(k, v). AList.update k v) (concat sources) tgt"

definition item :: "'a list \<Rightarrow> nat \<Rightarrow> 'a option" where
  "item xs i = (if i < length xs then Some (xs ! i) else None)"

text \<open>
  What the engine reads of a node: whether \<open>typeof\<close> gives \<open>"string"\<close> (a virtual node
  is a string or an object), its \<open>type\<close> property (\<open>undefined\<close> on a string) and its
  truthiness (\<open>undefined\<close> and the empty string are falsy, every object is truthy).
\<close>

fun typeof_string :: "vnode \<Rightarrow> bool" where
  "typeof_string (VText s) = True"
| "typeof_string (VElem t p c) = False"

fun type_of :: "vnode \<Rightarrow> string option" where
  "type_of (VText s) = None"
| "type_of (VElem t p c) = Some t"

fun truthy_node :: "vnode option \<Rightarrow> bool" where
  "truthy_node None = False"
| "truthy_node (Some (VText s)) = (s \<noteq> [])"
| "truthy_node (Some (VElem t p c)) = True"

subsection \<open>Property classification (lines 25-39)\<close>

definition isEventProp :: "string \<Rightarrow> bool" where
  "isEventProp name = (take 2 name = ''on'')"

definition isCustomProp :: "string \<Rightarrow> bool" where
  "isCustomProp name = (isEventProp name \<or> name = ''forceUpdate'')"

definition toLowerCase :: "char \<Rightarrow> char" where
  "toLowerCase c =
     (let n = (of_char c :: nat) in if 65 \<le> n \<and> n \<le> 90 then char_of (n + 32) else c)"

definition extractEventName :: "string \<Rightarrow> string" where
  "extractEventName name = map toLowerCase (drop 2 name)"

subsection \<open>The live tree and the document's operations\<close>

text \<open>
  A live node is a text node or an element with a tag, an attribute map, the event
  listeners subscribed on it and its children in order. The document records the names
  and values it is given as they are.
\<close>

datatype live =
  Text string "(string \<times> jsval) list"
| Element string "(string \<times> jsval) list" "(string \<times> jsval) list" "live list"

type_synonym node = "live option"

fun childNodes :: "live \<Rightarrow> live list" where
  "childNodes (Text s ls) = []"
| "childNodes (Element t as ls cs) = cs"

fun attributes :: "live \<Rightarrow> (string \<times> jsval) list" where
  "attributes (Text s ls) = []"
| "attributes (Element t as ls cs) = as"

fun listeners :: "live \<Rightarrow> (string \<times> jsval) list" where
  "listeners (Text s ls) = ls"
| "listeners (Element t as ls cs) = ls"

datatype error = ReferenceError | TypeError | HierarchyRequestError | InvalidCharacterError

datatype op =
  SetAttribute string jsval
| RemoveAttribute string
| AddEventListener string jsval
| AppendChild live
| RemoveChild nat
| ReplaceChild live nat

text \<open>
  The outcome of a call: \<open>val\<close> is the state of the mutated argument after the call (for
  \<open>createElement\<close>, the node returned), \<open>ops\<close> the mutating calls the document received,
  in order, \<open>calls\<close> the invocations of \<open>updateProp\<close> with their arguments (name, new
  value, old value), and \<open>raised\<close> the exception that ended the call, if any.
\<close>

record 'a res =
  val :: 'a
  ops :: "op list"
  calls :: "(string \<times> jsval \<times> jsval) list"
  raised :: "error option"

definition ok :: "'a \<Rightarrow> 'a res" where
  "ok x = \<lparr>val = x, ops = [], calls = [], raised = None\<rparr>"

definition throw :: "error \<Rightarrow> 'a \<Rightarrow> 'a res" where
  "throw e x = \<lparr>val = x, ops = [], calls = [], raised = Some e\<rparr>"

definition did :: "op \<Rightarrow> 'a \<Rightarrow> 'a res" where
  "did a x = \<lparr>val = x, ops = [a], calls = [], raised = None\<rparr>"

text \<open>
  Sequencing: when \<open>r\<close> raised, the rest is skipped and \<open>x\<close> is the state reported;
  otherwise \<open>f\<close> runs on the value of \<open>r\<close> and the logs are joined.
\<close>

definition andThen :: "'a res \<Rightarrow> 'b \<Rightarrow> ('a \<Rightarrow> 'b res) \<Rightarrow> 'b res" where
  "andThen r x f =
     (case raised r of
        Some e \<Rightarrow> \<lparr>val = x, ops = ops r, calls = calls r, raised = Some e\<rparr>
      | None \<Rightarrow>
          (let r' = f (val r)
           in \<lparr>val = val r', ops = ops r @ ops r', calls = calls r @ calls r',
               raised = raised r'\<rparr>))"

text \<open>
  The page. \<open>document.createElement\<close> and \<open>setAttribute\<close> raise an
  InvalidCharacterError for a name the document does not accept; which names it accepts
  is left open. The identifier \<open>newVal\<close> that line 100 reads is bound by no parameter of
  \<open>updateProp\<close>, no declaration of the enclosing closure and no top-level declaration of
  the file (the parameter is \<open>newValue\<close>), so each evaluation is resolved on the global
  object at that moment: it finds a global variable of that name, or an element of the
  document whose \<open>id\<close> is \<open>newVal\<close> (the engine itself may insert or remove one), or
  nothing, and then it raises a ReferenceError. \<open>global_newVal w k\<close> is what the
  evaluation finds that comes after \<open>k\<close> earlier ones. \<open>updateProp\<close> evaluates the identifier
  once per invocation, first thing, so \<open>after w r\<close>, the page as a call with the outcome
  \<open>r\<close> leaves it, has moved on by the number of invocations that \<open>r\<close> records.
\<close>

record window =
  valid_element_name :: "string \<Rightarrow> bool"
  valid_attribute_name :: "string \<Rightarrow> bool"
  global_newVal :: "nat \<Rightarrow> jsval option"

definition later :: "nat \<Rightarrow> window \<Rightarrow> window" where
  "later n w = w\<lparr>global_newVal := (\<lambda>k. global_newVal w (n + k))\<rparr>"

definition after :: "window \<Rightarrow> 'a res \<Rightarrow> window" where
  "after w r = later (length (calls r)) w"

text \<open>\<open>forEach\<close>: the callback of an iteration runs in the page as the iterations before left it.\<close>

fun forEach :: "window \<Rightarrow> 'k list \<Rightarrow> (window \<Rightarrow> 'k \<Rightarrow> 'a \<Rightarrow> 'a res) \<Rightarrow> 'a \<Rightarrow> 'a res" where
  "forEach w [] f x = ok x"
| "forEach w (k # ks) f x = (let r = f w k x in andThen r (val r) (forEach (after w r) ks f))"

definition document_createElement :: "window \<Rightarrow> string \<Rightarrow> node res" where
  "document_createElement w type =
     (if valid_element_name w type then ok (Some (Element type [] [] []))
      else throw InvalidCharacterError None)"

fun setAttribute :: "window \<Rightarrow> node \<Rightarrow> string \<Rightarrow> jsval \<Rightarrow> node res" where
  "setAttribute w None name v = throw TypeError None"
| "setAttribute w (Some (Text s ls)) name v = throw TypeError (Some (Text s ls))"
| "setAttribute w (Some (Element t as ls cs)) name v =
     (if valid_attribute_name w name
      then did (SetAttribute name v) (Some (Element t (AList.update name v as) ls cs))
      else throw InvalidCharacterError (Some (Element t as ls cs)))"

fun removeAttribute :: "node \<Rightarrow> string \<Rightarrow> node res" where
  "removeAttribute None name = throw TypeError None"
| "removeAttribute (Some (Text s ls)) name = throw TypeError (Some (Text s ls))"
| "removeAttribute (Some (Element t as ls cs)) name =
     did (RemoveAttribute name) (Some (Element t (AList.delete name as) ls cs))"

text \<open>
  \<open>addEventListener\<close> ignores a null callback, rejects a callback that is not an object
  and does not add the same listener twice.
\<close>

fun subscribe :: "(string \<times> jsval) list \<Rightarrow> string \<Rightarrow> jsval \<Rightarrow> (string \<times> jsval) list" where
  "subscribe ls ev f = (if (ev, f) \<in> set ls then ls else ls @ [(ev, f)])"

fun addEventListener :: "node \<Rightarrow> string \<Rightarrow> jsval \<Rightarrow> node res" where
  "addEventListener None ev f = throw TypeError None"
| "addEventListener (Some n) ev JUndefined = ok (Some n)"
| "addEventListener (Some n) ev JNull = ok (Some n)"
| "addEventListener (Some (Text s ls)) ev (JRef r) =
     did (AddEventListener ev (JRef r)) (Some (Text s (subscribe ls ev (JRef r))))"
| "addEventListener (Some (Element t as ls cs)) ev (JRef r) =
     did (AddEventListener ev (JRef r)) (Some (Element t as (subscribe ls ev (JRef r)) cs))"
| "addEventListener (Some n) ev f = throw TypeError (Some n)"

fun appendChild :: "node \<Rightarrow> node \<Rightarrow> node res" where
  "appendChild None c = throw TypeError None"
| "appendChild (Some p) None = throw TypeError (Some p)"
| "appendChild (Some (Text s ls)) (Some c) = throw HierarchyRequestError (Some (Text s ls))"
| "appendChild (Some (Element t as ls cs)) (Some c) =
     did (AppendChild c) (Some (Element t as ls (cs @ [c])))"

text \<open>
  \<open>parent.childNodes[index]\<close> is a reference to the child at that position, or
  \<open>undefined\<close>. \<open>removeChild\<close> and \<open>replaceChild\<close> receive such a reference; the model
  passes the position. Given \<open>undefined\<close> where a node is expected, the document raises
  a TypeError.
\<close>

fun childAt :: "node \<Rightarrow> nat \<Rightarrow> nat option" where
  "childAt None i = None"
| "childAt (Some p) i = (if i < length (childNodes p) then Some i else None)"

fun removeChild :: "node \<Rightarrow> nat option \<Rightarrow> node res" where
  "removeChild None c = throw TypeError None"
| "removeChild (Some p) None = throw TypeError (Some p)"
| "removeChild (Some (Text s ls)) (Some i) = throw TypeError (Some (Text s ls))"
| "removeChild (Some (Element t as ls cs)) (Some i) =
     did (RemoveChild i) (Some (Element t as ls (take i cs @ drop (Suc i) cs)))"

fun replaceChild :: "node \<Rightarrow> node \<Rightarrow> nat option \<Rightarrow> node res" where
  "replaceChild None n c = throw TypeError None"
| "replaceChild (Some p) None c = throw TypeError (Some p)"
| "replaceChild (Some p) (Some n) None = throw TypeError (Some p)"
| "replaceChild (Some (Text s ls)) (Some n) (Some i) = throw TypeError (Some (Text s ls))"
| "replaceChild (Some (Element t as ls cs)) (Some n) (Some i) =
     did (ReplaceChild n i) (Some (Element t as ls (cs[i := n])))"

subsection \<open>Setting and removing properties (lines 50-89)\<close>

definition setProp :: "window \<Rightarrow> node \<Rightarrow> string \<Rightarrow> jsval \<Rightarrow> node res" where
  "setProp w target name v =
     (if isCustomProp name then ok target
      else if name = ''className'' then setAttribute w target ''class'' v
      else setAttribute w target name v)"

definition removeProp :: "node \<Rightarrow> string \<Rightarrow> jsval \<Rightarrow> node res" where
  "removeProp target name v =
     (if isCustomProp name then ok target
      else if name = ''className'' then removeAttribute target ''class''
      else removeAttribute target name)"

definition setProps :: "window \<Rightarrow> node \<Rightarrow> props \<Rightarrow> node res" where
  "setProps w target props =
     forEach w (Object_keys props) (\<lambda>w name t. setProp w t name (get props name)) target"

subsection \<open>The property diff (lines 99-119)\<close>

text \<open>
  Line 100 tests \<open>newVal\<close>, not the parameter \<open>newValue\<close>: the evaluation raises a
  ReferenceError when the page binds no such name, and gives the value bound otherwise.
  The branches below the test are kept as the source has them. \<open>entered\<close> records the
  invocation.
\<close>

definition newVal :: "window \<Rightarrow> error + jsval" where
  "newVal w = (case global_newVal w 0 of None \<Rightarrow> Inl ReferenceError | Some v \<Rightarrow> Inr v)"

definition entered :: "string \<times> jsval \<times> jsval \<Rightarrow> 'a res \<Rightarrow> 'a res" where
  "entered c r = r\<lparr>calls := c # calls r\<rparr>"

definition updateProp :: "window \<Rightarrow> node \<Rightarrow> string \<Rightarrow> jsval \<Rightarrow> jsval \<Rightarrow> node res" where
  "updateProp w target name newValue oldValue =
     entered (name, newValue, oldValue)
       (case newVal w of
          Inl e \<Rightarrow> throw e target
        | Inr v \<Rightarrow>
            if \<not> truthy v then removeProp target name oldValue
            else if \<not> truthy oldValue \<or> \<not> strict_eq newValue oldValue
              then setProp w target name newValue
            else ok target)"

text \<open>\<open>oldProps\<close> has the default \<open>{}\<close>, taken when the argument is \<open>undefined\<close>.\<close>

definition updateProps :: "window \<Rightarrow> node \<Rightarrow> props \<Rightarrow> props option \<Rightarrow> node res" where
  "updateProps w target newProps oldProps =
     (let oldProps = (case oldProps of None \<Rightarrow> [] | Some p \<Rightarrow> p);
          props = Object_assign [] [newProps, oldProps]
      in forEach w (Object_keys props)
           (\<lambda>w name t. updateProp w t name (get newProps name) (get oldProps name)) target)"

subsection \<open>Materialising a virtual node (lines 127-152)\<close>

definition addEventListeners :: "window \<Rightarrow> node \<Rightarrow> props \<Rightarrow> node res" where
  "addEventListeners w target props =
     forEach w (Object_keys props)
       (\<lambda>w name t. if isEventProp name
                    then addEventListener t (extractEventName name) (get props name)
                    else ok t) target"

text \<open>
  \<open>collect\<close> runs the calls of \<open>children.map(createElement)\<close> from left to right.
  \<open>createElement\<close> and the functions it calls never reach line 100, so all its steps run
  in the page it was called in.
\<close>

fun collect :: "'a res list \<Rightarrow> 'a list res" where
  "collect [] = ok []"
| "collect (r # rs) = andThen r [] (\<lambda>x. andThen (collect rs) [] (\<lambda>xs. ok (x # xs)))"

fun createElement :: "window \<Rightarrow> vnode option \<Rightarrow> node res" where
  "createElement w None = throw TypeError None"
| "createElement w (Some (VText s)) = ok (Some (Text s []))"
| "createElement w (Some (VElem type props children)) =
     andThen (document_createElement w type) None (\<lambda>el.
     andThen (setProps w el props) None (\<lambda>el.
     andThen (addEventListeners w el props) None (\<lambda>el.
     andThen (collect (map (\<lambda>c. createElement w (Some c)) children)) None (\<lambda>created.
     forEach w created (\<lambda>w c e. appendChild e c) el))))"

subsection \<open>Change detection and the tree reconciler (lines 162-194)\<close>

definition changed :: "vnode \<Rightarrow> vnode \<Rightarrow> bool" where
  "changed node1 node2 =
     (typeof_string node1 \<noteq> typeof_string node2 \<or>
      (typeof_string node1 \<and> node1 \<noteq> node2) \<or>
      type_of node1 \<noteq> type_of node2)"

text \<open>
  \<open>update\<close> recurses with the live child \<open>parent.childNodes[index]\<close> as the parent; the
  child is mutated in place, so its state after the call is put back at its position.
\<close>

fun putChild :: "node \<Rightarrow> nat \<Rightarrow> node \<Rightarrow> node" where
  "putChild (Some (Element t as ls cs)) i (Some c) = Some (Element t as ls (cs[i := c]))"
| "putChild p i c = p"

definition within :: "node \<Rightarrow> nat \<Rightarrow> node res \<Rightarrow> node res" where
  "within parent index r = r\<lparr>val := putChild parent index (val r)\<rparr>"

fun childNode :: "node \<Rightarrow> nat \<Rightarrow> node" where
  "childNode None i = None"
| "childNode (Some p) i = item (childNodes p) i"

fun vsize :: "vnode \<Rightarrow> nat" where
  "vsize (VText s) = 1"
| "vsize (VElem t p cs) = Suc (sum_list (map vsize cs))"

fun osize :: "vnode option \<Rightarrow> nat" where
  "osize None = 0"
| "osize (Some v) = vsize v"

lemma vsize_item: "item xs i = Some x \<Longrightarrow> vsize x \<le> sum_list (map vsize xs)"
  by (auto simp: item_def split: if_splits intro!: member_le_sum_list)

lemma osize_item: "osize (item xs i) \<le> sum_list (map vsize xs)"
  by (cases "item xs i") (auto dest: vsize_item)

text \<open>
  The parameter \<open>index\<close> has the default 0 (line 178): the first equation is a call that
  leaves the argument out. \<open>update_loop\<close> is the \<open>for\<close> loop of lines 190-192, entered
  with \<open>i = 0\<close>. Where \<open>parent\<close> is \<open>undefined\<close>, reading \<open>parent.appendChild\<close>,
  \<open>parent.removeChild\<close>, \<open>parent.replaceChild\<close> or \<open>parent.childNodes\<close> raises a
  TypeError. Past the test of \<open>changed\<close> the two nodes are two equal strings, whose
  \<open>type\<close> is \<open>undefined\<close> (nothing is done), or two objects of the same \<open>type\<close>. The
  loop runs in the page as \<open>updateProps\<close> left it, each step in the page as the step
  before left it.
\<close>

function update :: "window \<Rightarrow> node \<Rightarrow> vnode option \<Rightarrow> vnode option \<Rightarrow> nat option \<Rightarrow> node res"
  and update_loop ::
    "window \<Rightarrow> node \<Rightarrow> nat \<Rightarrow> vnode list \<Rightarrow> vnode list \<Rightarrow> nat \<Rightarrow> node res"
where
  "update w parent newNode oldNode None = update w parent newNode oldNode (Some 0)"
| "update w parent newNode oldNode (Some index) =
     (if \<not> truthy_node oldNode then
        (if parent = None then throw TypeError None
         else andThen (createElement w newNode) parent (\<lambda>n. appendChild parent n))
      else if \<not> truthy_node newNode then
        (if parent = None then throw TypeError None
         else removeChild parent (childAt parent index))
      else
        (case (newNode, oldNode) of
           (Some new, Some old) \<Rightarrow>
             if changed new old then
               (if parent = None then throw TypeError None
                else andThen (createElement w newNode) parent
                       (\<lambda>n. replaceChild parent n (childAt parent index)))
             else
               (case (new, old) of
                  (VElem type props children, VElem type' props' children') \<Rightarrow>
                    if type \<noteq> [] then
                      (if parent = None then throw TypeError None
                       else
                         (let r = within parent index
                                    (updateProps w (childNode parent index) props (Some props'))
                          in andThen r (val r)
                               (\<lambda>parent. update_loop (after w r) parent index
                                           children children' 0)))
                    else ok parent
                | _ \<Rightarrow> ok parent)
         | _ \<Rightarrow> ok parent))"
| "update_loop w parent index newChildren oldChildren i =
     (if i < length newChildren \<or> i < length oldChildren then
        (if parent = None then throw TypeError None
         else
           (let r = within parent index
                      (update w (childNode parent index) (item newChildren i)
                         (item oldChildren i) (Some i))
            in andThen r (val r)
                 (\<lambda>parent. update_loop (after w r) parent index newChildren oldChildren
                             (Suc i))))
      else ok parent)"
  by pat_completeness auto

termination
proof (relation "inv_image (less_than <*lex*> less_than)
    (\<lambda>x. case x of
       Inl (w, p, new, old, i) \<Rightarrow> (osize new + osize old, if i = None then 1 else 0)
     | Inr (w, p, idx, news, olds, i) \<Rightarrow>
         (Suc (sum_list (map vsize news) + sum_list (map vsize olds)),
          max (length news) (length olds) - i))", goal_cases)
  case 1
  show ?case by (intro wf_inv_image wf_lex_prod wf_less_than)
next
  case (2 w parent newNode oldNode)
  show ?case by simp
next
  case (3 w parent newNode oldNode index)
  then show ?case by auto
next
  case (4 w parent index newChildren oldChildren i)
  have "osize (item newChildren i) + osize (item oldChildren i)
      \<le> sum_list (map vsize newChildren) + sum_list (map vsize oldChildren)"
    using osize_item [of newChildren i] osize_item [of oldChildren i] by linarith
  then show ?case by simp
next
  case (5 w parent index newChildren oldChildren i)
  then show ?case by auto
qed

section \<open>The engine over a store of objects\<close>

text \<open>
  In the program a virtual node is an object that \<open>h\<close> allocates, and \<open>update\<close> and
  \<open>createElement\<close> receive references to such objects. To speak about what a call does
  to these objects, this section gives the functions that receive a reference a second
  reading, over an explicit store: the store is passed in and the store after the call
  is returned. \<open>setProp\<close>, \<open>removeProp\<close> and \<open>updateProp\<close> receive names and property
  values only and are used as they are. The page is passed on as in the first reading.

  The store holds the \<open>{type, props, children}\<close> objects and the property objects, each
  kind in a list of its own; an address is a position in the list, allocation appends,
  and a write replaces the object at its address. The \<open>children\<close> array is held in the
  node object. A reference the store does not hold cannot occur in the program; reading
  through one is modelled as reading a property of \<open>undefined\<close>, a TypeError.
\<close>

datatype jsnode = Undefined | Str string | Ref nat

record vobject =
  otype :: string
  oprops :: nat
  ochildren :: "jsnode list"

record store =
  vnodes :: "vobject list"
  propss :: "props list"

definition alloc_vnode :: "store \<Rightarrow> vobject \<Rightarrow> nat \<times> store" where
  "alloc_vnode s ob = (length (vnodes s), s\<lparr>vnodes := vnodes s @ [ob]\<rparr>)"

definition alloc_props :: "store \<Rightarrow> props \<Rightarrow> nat \<times> store" where
  "alloc_props s ps = (length (propss s), s\<lparr>propss := propss s @ [ps]\<rparr>)"

definition write_props :: "store \<Rightarrow> nat \<Rightarrow> props \<Rightarrow> store" where
  "write_props s a ps = s\<lparr>propss := (propss s)[a := ps]\<rparr>"

fun read_vnode :: "store \<Rightarrow> jsnode \<Rightarrow> vobject option" where
  "read_vnode s (Ref a) = item (vnodes s) a"
| "read_vnode s n = None"

definition read_props :: "store \<Rightarrow> nat \<Rightarrow> props option" where
  "read_props s a = item (propss s) a"

text \<open>\<open>h\<close> (lines 11-17): \<open>props || {}\<close> allocates an empty object when no props are given.\<close>

definition h_st :: "store \<Rightarrow> string \<Rightarrow> nat option \<Rightarrow> jsnode list \<Rightarrow> jsnode \<times> store" where
  "h_st s type props children =
     (let (p, s1) = (case props of None \<Rightarrow> alloc_props s [] | Some p \<Rightarrow> (p, s));
          (a, s2) = alloc_vnode s1 \<lparr>otype = type, oprops = p, ochildren = children\<rparr>
      in (Ref a, s2))"

fun truthy_jsnode :: "jsnode \<Rightarrow> bool" where
  "truthy_jsnode Undefined = False"
| "truthy_jsnode (Str x) = (x \<noteq> [])"
| "truthy_jsnode (Ref a) = True"

fun typeof :: "jsnode \<Rightarrow> string" where
  "typeof Undefined = ''undefined''"
| "typeof (Str x) = ''string''"
| "typeof (Ref a) = ''object''"

text \<open>\<open>node.type\<close>; \<open>update\<close> reads it of a truthy node only, where a string gives \<open>undefined\<close>.\<close>

definition type_field :: "store \<Rightarrow> jsnode \<Rightarrow> string option" where
  "type_field s n = map_option otype (read_vnode s n)"

text \<open>
  The outcome of a call over the store: the store after the call and the result, or no
  result when the recursion was cut off (the fuel, a bound on the nesting of calls, ran
  out; the store is then the one reached so far).
\<close>

type_synonym 'a outcome = "store \<times> 'a res option"

definition done_st :: "store \<Rightarrow> 'a res \<Rightarrow> 'a outcome" where
  "done_st s r = (s, Some r)"

text \<open>
  Sequencing, as \<open>andThen\<close>: when the first call raised, \<open>x\<close> gives the state reported
  from the state it left.
\<close>

definition bind_st ::
  "'a outcome \<Rightarrow> ('a \<Rightarrow> 'b) \<Rightarrow> (store \<Rightarrow> 'a \<Rightarrow> 'b outcome) \<Rightarrow> 'b outcome" where
  "bind_st m x f =
     (case m of
        (s, None) \<Rightarrow> (s, None)
      | (s, Some r) \<Rightarrow>
          (case raised r of
             Some e \<Rightarrow>
               (s, Some \<lparr>val = x (val r), ops = ops r, calls = calls r, raised = Some e\<rparr>)
           | None \<Rightarrow>
               (case f s (val r) of
                  (s', None) \<Rightarrow> (s', None)
                | (s', Some r') \<Rightarrow>
                    (s', Some \<lparr>val = val r', ops = ops r @ ops r',
                              calls = calls r @ calls r', raised = raised r'\<rparr>))))"

definition within_st :: "node \<Rightarrow> nat \<Rightarrow> node outcome \<Rightarrow> node outcome" where
  "within_st parent index m = (fst m, map_option (within parent index) (snd m))"

definition after_st :: "window \<Rightarrow> 'a outcome \<Rightarrow> window" where
  "after_st w m = (case snd m of None \<Rightarrow> w | Some r \<Rightarrow> after w r)"

definition setProps_st :: "window \<Rightarrow> store \<Rightarrow> node \<Rightarrow> nat \<Rightarrow> node outcome" where
  "setProps_st w s target props =
     (case read_props s props of
        None \<Rightarrow> done_st s (throw TypeError target)
      | Some ps \<Rightarrow> done_st s (setProps w target ps))"

definition addEventListeners_st :: "window \<Rightarrow> store \<Rightarrow> node \<Rightarrow> nat \<Rightarrow> node outcome" where
  "addEventListeners_st w s target props =
     (case read_props s props of
        None \<Rightarrow> done_st s (throw TypeError target)
      | Some ps \<Rightarrow> done_st s (addEventListeners w target ps))"

text \<open>
  \<open>Object.assign(target, ...sources)\<close> writes the properties of the sources into the
  object at \<open>target\<close>; it is the one primitive of the program that writes to an object.
\<close>

definition Object_assign_st :: "store \<Rightarrow> nat \<Rightarrow> nat list \<Rightarrow> store option" where
  "Object_assign_st s tgt sources =
     (case (read_props s tgt, those (map (read_props s) sources)) of
        (Some t, Some srcs) \<Rightarrow> Some (write_props s tgt (Object_assign t srcs))
      | _ \<Rightarrow> None)"

text \<open>
  \<open>updateProps\<close> (lines 114-119): the default \<open>{}\<close> of \<open>oldProps\<close> and the \<open>{}\<close> passed to
  \<open>Object.assign\<close> are fresh objects.
\<close>

definition updateProps_st ::
  "window \<Rightarrow> store \<Rightarrow> node \<Rightarrow> nat \<Rightarrow> nat option \<Rightarrow> node outcome" where
  "updateProps_st w s target newProps oldProps =
     (let (oldProps, s1) = (case oldProps of None \<Rightarrow> alloc_props s [] | Some p \<Rightarrow> (p, s));
          (props, s2) = alloc_props s1 []
      in case Object_assign_st s2 props [newProps, oldProps] of
           None \<Rightarrow> done_st s2 (throw TypeError target)
         | Some s3 \<Rightarrow>
             (case (read_props s3 props, read_props s3 newProps, read_props s3 oldProps) of
                (Some ps, Some new, Some old) \<Rightarrow>
                  done_st s3
                    (forEach w (Object_keys ps)
                       (\<lambda>w name t. updateProp w t name (get new name) (get old name))
                       target)
              | _ \<Rightarrow> done_st s3 (throw TypeError target)))"

fun collect_st :: "(store \<Rightarrow> jsnode \<Rightarrow> node outcome) \<Rightarrow> store \<Rightarrow> jsnode list \<Rightarrow> node list outcome" where
  "collect_st f s [] = done_st s (ok [])"
| "collect_st f s (c # cs) =
     bind_st (f s c) (\<lambda>x. [])
       (\<lambda>s x. bind_st (collect_st f s cs) (\<lambda>xs. []) (\<lambda>s xs. done_st s (ok (x # xs))))"

primrec createElement_st :: "nat \<Rightarrow> window \<Rightarrow> store \<Rightarrow> jsnode \<Rightarrow> node outcome" where
  "createElement_st 0 = (\<lambda>w s node. (s, None))"
| "createElement_st (Suc fuel) = (\<lambda>w s node.
     case node of
       Str x \<Rightarrow> done_st s (ok (Some (Text x [])))
     | Undefined \<Rightarrow> done_st s (throw TypeError None)
     | Ref a \<Rightarrow>
         (case read_vnode s node of
            None \<Rightarrow> done_st s (throw TypeError None)
          | Some ob \<Rightarrow>
              bind_st (done_st s (document_createElement w (otype ob))) (\<lambda>el. None) (\<lambda>s el.
              bind_st (setProps_st w s el (oprops ob)) (\<lambda>el. None) (\<lambda>s el.
              bind_st (addEventListeners_st w s el (oprops ob)) (\<lambda>el. None) (\<lambda>s el.
              bind_st (collect_st (createElement_st fuel w) s (ochildren ob)) (\<lambda>xs. None)
                (\<lambda>s created.
              done_st s (forEach w created (\<lambda>w c e. appendChild e c) el)))))))"

definition changed_st :: "store \<Rightarrow> jsnode \<Rightarrow> jsnode \<Rightarrow> bool" where
  "changed_st s node1 node2 =
     (typeof node1 \<noteq> typeof node2 \<or>
      (typeof node1 = ''string'' \<and> node1 \<noteq> node2) \<or>
      type_field s node1 \<noteq> type_field s node2)"

text \<open>\<open>node.children[i]\<close>, \<open>node.children.length\<close> and \<open>node.props\<close> of a node object.\<close>

definition child_st :: "store \<Rightarrow> jsnode \<Rightarrow> nat \<Rightarrow> jsnode option" where
  "child_st s n i =
     map_option (\<lambda>ob. case item (ochildren ob) i of None \<Rightarrow> Undefined | Some c \<Rightarrow> c)
       (read_vnode s n)"

function update_loop_st ::
  "(window \<Rightarrow> store \<Rightarrow> node \<Rightarrow> jsnode \<Rightarrow> jsnode \<Rightarrow> nat option \<Rightarrow> node outcome) \<Rightarrow>
     window \<Rightarrow> store \<Rightarrow> node \<Rightarrow> nat \<Rightarrow> jsnode \<Rightarrow> jsnode \<Rightarrow> nat \<Rightarrow> nat \<Rightarrow> nat \<Rightarrow>
     node outcome"
where
  "update_loop_st upd w s parent index newNode oldNode newLength oldLength i =
     (if i < newLength \<or> i < oldLength then
        (if parent = None then done_st s (throw TypeError None)
         else
           (case (child_st s newNode i, child_st s oldNode i) of
              (Some new, Some old) \<Rightarrow>
                (let m = within_st parent index
                           (upd w s (childNode parent index) new old (Some i))
                 in bind_st m (\<lambda>parent. parent)
                      (\<lambda>s parent.
                         update_loop_st upd (after_st w m) s parent index newNode oldNode
                           newLength oldLength (Suc i)))
            | _ \<Rightarrow> done_st s (throw TypeError parent)))
      else done_st s (ok parent))"
  by pat_completeness auto
termination
  by (relation "measure (\<lambda>(upd, w, s, parent, index, newNode, oldNode, nl, ol, i). max nl ol - i)")
    auto

primrec update_st ::
  "nat \<Rightarrow> window \<Rightarrow> store \<Rightarrow> node \<Rightarrow> jsnode \<Rightarrow> jsnode \<Rightarrow> nat option \<Rightarrow> node outcome"
where
  "update_st 0 = (\<lambda>w s parent newNode oldNode index. (s, None))"
| "update_st (Suc fuel) = (\<lambda>w s parent newNode oldNode index.
     let index = (case index of None \<Rightarrow> 0 | Some i \<Rightarrow> i) in
     if \<not> truthy_jsnode oldNode then
       (if parent = None then done_st s (throw TypeError None)
        else bind_st (createElement_st (Suc fuel) w s newNode) (\<lambda>n. parent)
               (\<lambda>s n. done_st s (appendChild parent n)))
     else if \<not> truthy_jsnode newNode then
       (if parent = None then done_st s (throw TypeError None)
        else done_st s (removeChild parent (childAt parent index)))
     else if changed_st s newNode oldNode then
       (if parent = None then done_st s (throw TypeError None)
        else bind_st (createElement_st (Suc fuel) w s newNode) (\<lambda>n. parent)
               (\<lambda>s n. done_st s (replaceChild parent n (childAt parent index))))
     else
       (case type_field s newNode of
          None \<Rightarrow> done_st s (ok parent)
        | Some type \<Rightarrow>
            if type \<noteq> [] then
              (if parent = None then done_st s (throw TypeError None)
               else
                 (case read_vnode s newNode of
                    None \<Rightarrow> done_st s (throw TypeError parent)
                  | Some new \<Rightarrow>
                      (let m = within_st parent index
                                 (updateProps_st w s (childNode parent index) (oprops new)
                                    (map_option oprops (read_vnode s oldNode)))
                       in bind_st m (\<lambda>parent. parent)
                            (\<lambda>s parent.
                               case (read_vnode s newNode, read_vnode s oldNode) of
                                 (Some new, Some old) \<Rightarrow>
                                   update_loop_st (update_st fuel) (after_st w m) s parent index
                                     newNode oldNode
                                     (length (ochildren new)) (length (ochildren old)) 0
                               | _ \<Rightarrow> done_st s (throw TypeError parent)))))
            else done_st s (ok parent)))"

subsection \<open>Notions used in the statements\<close>

fun isElement :: "node \<Rightarrow> bool" where
  "isElement (Some (Element t as ls cs)) = True"
| "isElement _ = False"

fun without_attributes :: "live \<Rightarrow> live" where
  "without_attributes (Text s ls) = Text s ls"
| "without_attributes (Element t as ls cs) = Element t [] ls cs"

fun without_listeners :: "live \<Rightarrow> live" where
  "without_listeners (Text s ls) = Text s []"
| "without_listeners (Element t as ls cs) = Element t as [] cs"

text \<open>
  The well-formedness the specification asks of event properties: the value of a
  property whose name starts with \<open>on\<close> is a function.
\<close>

fun is_function :: "jsval \<Rightarrow> bool" where
  "is_function (JRef r) = True"
| "is_function _ = False"

fun invocable_handlers :: "vnode \<Rightarrow> bool" where
  "invocable_handlers (VText s) = True"
| "invocable_handlers (VElem t ps cs) =
     (list_all (\<lambda>name. \<not> isEventProp name \<or> is_function (get ps name)) (Object_keys ps) \<and>
      list_all invocable_handlers cs)"

text \<open>No text node of the tree, the tree itself included, is the empty string.\<close>

fun no_empty_text :: "vnode \<Rightarrow> bool" where
  "no_empty_text (VText s) = (s \<noteq> [])"
| "no_empty_text (VElem t p cs) = list_all no_empty_text cs"

text \<open>
  A tree without properties, without empty text and without an empty tag: on such a
  tree \<open>updateProp\<close> is never called.
\<close>

fun plain :: "vnode \<Rightarrow> bool" where
  "plain (VText s) = (s \<noteq> [])"
| "plain (VElem t ps cs) = (t \<noteq> [] \<and> ps = [] \<and> list_all plain cs)"

text \<open>The second, fourth, ... element of a list.\<close>

fun odd_positions :: "'a list \<Rightarrow> 'a list" where
  "odd_positions [] = []"
| "odd_positions [x] = []"
| "odd_positions (x # y # zs) = y # odd_positions zs"

text \<open>
  \<open>keeps s s'\<close>: every object of the store \<open>s\<close> is in \<open>s'\<close> at its address with the fields
  it had; \<open>s'\<close> may hold further property objects, allocated later.
\<close>

definition keeps :: "store \<Rightarrow> store \<Rightarrow> bool" where
  "keeps s s' = (vnodes s' = vnodes s \<and> prefix (propss s) (propss s'))"

text \<open>
  \<open>holds s n T\<close>: in the store \<open>s\<close> the value \<open>n\<close> is the tree \<open>T\<close>: a string is itself, a
  reference leads to an object with the type, the properties and, child by child, the
  children of \<open>T\<close>. \<open>depth\<close> bounds the nesting of the calls on a tree.
\<close>

fun holds :: "store \<Rightarrow> jsnode \<Rightarrow> vnode \<Rightarrow> bool" where
  "holds s (Str x) (VText y) = (x = y)"
| "holds s (Ref a) (VElem t ps cs) =
     (case item (vnodes s) a of
        None \<Rightarrow> False
      | Some ob \<Rightarrow>
          otype ob = t \<and> read_props s (oprops ob) = Some ps \<and>
          list_all2 (holds s) (ochildren ob) cs)"
| "holds s n T = False"

fun holds_opt :: "store \<Rightarrow> jsnode \<Rightarrow> vnode option \<Rightarrow> bool" where
  "holds_opt s n None = (n = Undefined)"
| "holds_opt s n (Some T) = holds s n T"

fun depth :: "vnode \<Rightarrow> nat" where
  "depth (VText x) = 0"
| "depth (VElem t ps cs) = Suc (foldr max (map depth cs) 0)"

fun odepth :: "vnode option \<Rightarrow> nat" where
  "odepth None = 0"
| "odepth (Some T) = depth T"

text \<open>
  The names of a tree that the document is asked to accept: every tag, and every
  property name that \<open>setProp\<close> passes on to \<open>setAttribute\<close> (\<open>className\<close> as \<open>class\<close>).
\<close>

fun accepted :: "window \<Rightarrow> vnode \<Rightarrow> bool" where
  "accepted w (VText s) = True"
| "accepted w (VElem t ps cs) =
     (valid_element_name w t \<and>
      list_all (\<lambda>name. isCustomProp name \<or>
                  valid_attribute_name w (if name = ''className'' then ''class'' else name))
        (Object_keys ps) \<and>
      list_all (accepted w) cs)"

text \<open>
  \<open>leaves_alone g (name, x)\<close>: when the evaluation of \<open>newVal\<close> finds \<open>g\<close>, the call
  \<open>updateProp(target, name, x, x)\<close> returns without an operation on the target. It does
  when the name is a custom one (\<open>setProp\<close> and \<open>removeProp\<close> return at once), or when
  the value found and \<open>x\<close> are both truthy (neither branch of lines 100-104 is taken).
  \<open>properties\<close> lists the properties of all the elements of a tree, and \<open>steady w T\<close> says
  that in the page \<open>w\<close>, whenever the identifier is evaluated, every property of \<open>T\<close> is
  left alone. A tree without properties is steady in every page.
\<close>

definition leaves_alone :: "jsval option \<Rightarrow> string \<times> jsval \<Rightarrow> bool" where
  "leaves_alone g p =
     (case g of None \<Rightarrow> False | Some v \<Rightarrow> isCustomProp (fst p) \<or> (truthy v \<and> truthy (snd p)))"

fun properties :: "vnode \<Rightarrow> (string \<times> jsval) list" where
  "properties (VText s) = []"
| "properties (VElem t ps cs) =
     map (\<lambda>name. (name, get ps name)) (Object_keys ps) @ concat (map properties cs)"

definition steady :: "window \<Rightarrow> vnode \<Rightarrow> bool" where
  "steady w T = (\<forall>k. list_all (leaves_alone (global_newVal w k)) (properties T))"

text \<open>
  An example of a page: the document accepts the names made of ASCII letters, digits and
  hyphens that begin with a letter (every document accepts these), and every evaluation
  of \<open>newVal\<close> finds \<open>g\<close>: nothing when \<open>g\<close> is \<open>None\<close>.
\<close>

definition ascii_letter :: "char \<Rightarrow> bool" where
  "ascii_letter c =
     (let n = (of_char c :: nat) in (65 \<le> n \<and> n \<le> 90) \<or> (97 \<le> n \<and> n \<le> 122))"

definition ascii_name :: "string \<Rightarrow> bool" where
  "ascii_name s =
     (case s of
        [] \<Rightarrow> False
      | c # cs \<Rightarrow>
          ascii_letter c \<and>
          list_all (\<lambda>c. ascii_letter c \<or> (let n = (of_char c :: nat) in 48 \<le> n \<and> n \<le> 57) \<or>
                         c = CHR ''-'') cs)"

definition page :: "jsval option \<Rightarrow> window" where
  "page g = \<lparr>valid_element_name = ascii_name, valid_attribute_name = ascii_name,
             global_newVal = (\<lambda>k. g)\<rparr>"

text \<open>The operations that subscribe a listener.\<close>

fun subscribes :: "op \<Rightarrow> bool" where
  "subscribes (AddEventListener ev f) = True"
| "subscribes a = False"

section \<open>Properties\<close>

subsection \<open>Unfolding the reconciler branch by branch\<close>

declare update.simps [simp del] update_loop.simps [simp del]

lemma res_simps [simp]:
  "val (ok x) = x" "ops (ok x) = []" "calls (ok x) = []" "raised (ok x) = None"
  "val (throw e x) = x" "ops (throw e x) = []" "calls (throw e x) = []" "raised (throw e x) = Some e"
  "val (did a x) = x" "ops (did a x) = [a]" "calls (did a x) = []" "raised (did a x) = None"
  by (simp_all add: ok_def throw_def did_def)

lemma later_simps [simp]:
  "later 0 w = w"
  "valid_element_name (later n w) = valid_element_name w"
  "valid_attribute_name (later n w) = valid_attribute_name w"
  "global_newVal (later n w) k = global_newVal w (n + k)"
  "later m (later n w) = later (n + m) w"
  by (simp_all add: later_def add.assoc)

lemma after_simps [simp]:
  "valid_element_name (after w r) = valid_element_name w"
  "valid_attribute_name (after w r) = valid_attribute_name w"
  "global_newVal (after w r) k = global_newVal w (length (calls r) + k)"
  by (simp_all add: after_def)

lemma after_quiet [simp]: "calls r = [] \<Longrightarrow> after w r = w"
  by (simp add: after_def)

lemma andThen_raised:
  "raised r = Some e \<Longrightarrow> andThen r x f = \<lparr>val = x, ops = ops r, calls = calls r, raised = Some e\<rparr>"
  by (simp add: andThen_def)

lemma andThen_fields:
  "raised r = None \<Longrightarrow> val (andThen r x f) = val (f (val r))"
  "raised r = None \<Longrightarrow> ops (andThen r x f) = ops r @ ops (f (val r))"
  "raised r = None \<Longrightarrow> calls (andThen r x f) = calls r @ calls (f (val r))"
  "raised r = None \<Longrightarrow> raised (andThen r x f) = raised (f (val r))"
  by (simp_all add: andThen_def Let_def)

lemma andThen_ok [simp]: "andThen (ok v) x f = f v"
  by (simp add: andThen_def ok_def Let_def)

lemma andThen_throw [simp]: "andThen (throw e v) x f = throw e x"
  by (simp add: andThen_def throw_def)

lemma andThen_did:
  "andThen (did a v) x f =
     \<lparr>val = val (f v), ops = a # ops (f v), calls = calls (f v), raised = raised (f v)\<rparr>"
  by (simp add: andThen_def did_def Let_def)

lemma putChild_childNode [simp]: "putChild parent i (childNode parent i) = parent"
proof (cases parent)
  case None
  then show ?thesis by simp
next
  case (Some p)
  then show ?thesis by (cases p) (auto simp: item_def)
qed

lemma update_absent_old:
  "\<not> truthy_node oldNode \<Longrightarrow>
     update w parent newNode oldNode (Some index) =
       (if parent = None then throw TypeError None
        else andThen (createElement w newNode) parent (\<lambda>n. appendChild parent n))"
  by (simp add: update.simps)

lemma update_absent_new:
  "truthy_node oldNode \<Longrightarrow> \<not> truthy_node newNode \<Longrightarrow>
     update w parent newNode oldNode (Some index) =
       (if parent = None then throw TypeError None
        else removeChild parent (childAt parent index))"
  by (simp add: update.simps)

lemma update_changed:
  "truthy_node (Some old) \<Longrightarrow> truthy_node (Some new) \<Longrightarrow> changed new old \<Longrightarrow>
     update w parent (Some new) (Some old) (Some index) =
       (if parent = None then throw TypeError None
        else andThen (createElement w (Some new)) parent
               (\<lambda>n. replaceChild parent n (childAt parent index)))"
  by (simp add: update.simps)

lemma update_text_same:
  "s \<noteq> [] \<Longrightarrow> update w parent (Some (VText s)) (Some (VText s)) (Some index) = ok parent"
  by (simp add: update.simps changed_def)

lemma update_elem_same:
  "update w parent (Some (VElem ty ps cs)) (Some (VElem ty ps' cs')) (Some index) =
     (if ty \<noteq> [] then
        (if parent = None then throw TypeError None
         else
           (let r = within parent index (updateProps w (childNode parent index) ps (Some ps'))
            in andThen r (val r) (\<lambda>parent. update_loop (after w r) parent index cs cs' 0)))
      else ok parent)"
  by (simp add: update.simps changed_def)

lemma within_fields [simp]:
  "val (within parent index r) = putChild parent index (val r)"
  "ops (within parent index r) = ops r"
  "calls (within parent index r) = calls r"
  "raised (within parent index r) = raised r"
  by (simp_all add: within_def)

lemma after_within [simp]: "after w (within parent index r) = after w r"
  by (simp add: after_def)

lemma update_loop_step:
  "i < length newChildren \<or> i < length oldChildren \<Longrightarrow> parent \<noteq> None \<Longrightarrow>
     update_loop w parent index newChildren oldChildren i =
       andThen
         (within parent index
            (update w (childNode parent index) (item newChildren i) (item oldChildren i)
               (Some i)))
         (putChild parent index
            (val (update w (childNode parent index) (item newChildren i) (item oldChildren i)
               (Some i))))
         (\<lambda>q. update_loop
            (after w (update w (childNode parent index) (item newChildren i)
               (item oldChildren i) (Some i)))
            q index newChildren oldChildren (Suc i))"
  by (subst update_loop.simps) (auto simp add: Let_def)

lemma update_loop_done:
  "\<not> i < length newChildren \<Longrightarrow> \<not> i < length oldChildren \<Longrightarrow>
     update_loop w parent index newChildren oldChildren i = ok parent"
  by (subst update_loop.simps) simp

lemma update_loop_undefined:
  "i < length newChildren \<or> i < length oldChildren \<Longrightarrow>
     update_loop w None index newChildren oldChildren i = throw TypeError None"
  by (subst update_loop.simps) auto

subsection \<open>Basic facts about the property diff\<close>

lemma updateProp_unbound:
  "global_newVal w 0 = None \<Longrightarrow>
     updateProp w target name newValue oldValue =
       \<lparr>val = target, ops = [], calls = [(name, newValue, oldValue)],
        raised = Some ReferenceError\<rparr>"
  by (simp add: updateProp_def newVal_def entered_def throw_def)

lemma updateProps_unbound:
  "global_newVal w 0 = None \<Longrightarrow>
     updateProps w target newProps oldProps =
       (case Object_keys (Object_assign [] [newProps, case oldProps of None \<Rightarrow> [] | Some p \<Rightarrow> p]) of
          [] \<Rightarrow> ok target
        | k # ks \<Rightarrow>
            \<lparr>val = target, ops = [],
             calls = [(k, get newProps k, get (case oldProps of None \<Rightarrow> [] | Some p \<Rightarrow> p) k)],
             raised = Some ReferenceError\<rparr>)"
  by (auto simp: updateProps_def Let_def updateProp_unbound andThen_def ok_def
      split: list.splits)

lemma updateProps_empty: "updateProps w target [] (Some []) = ok target"
  by (simp add: updateProps_def Object_keys_def Object_assign_def)

lemma fold_update_keys:
  "set (map fst (fold (\<lambda>(k, v). AList.update k v) xs acc)) = fst ` set acc \<union> fst ` set xs"
  by (induction xs arbitrary: acc) (auto simp: dom_update split: prod.splits)

lemma fold_update_distinct:
  "distinct (map fst acc) \<Longrightarrow> distinct (map fst (fold (\<lambda>(k, v). AList.update k v) xs acc))"
  by (induction xs arbitrary: acc) (auto simp: distinct_update split: prod.splits)

subsection \<open>What the property functions leave alone\<close>

lemma forEach_frame:
  assumes "\<And>w k x. F (val (f w k x)) = F x"
  shows "F (val (forEach w ks f x)) = F x"
proof (induction ks arbitrary: x w)
  case Nil
  then show ?case by simp
next
  case (Cons k ks)
  show ?case
  proof (cases "raised (f w k x)")
    case None
    then show ?thesis using Cons [of "after w (f w k x)" "val (f w k x)"] assms [of w k x]
      by (simp add: Let_def andThen_fields)
  next
    case (Some e)
    then show ?thesis using assms [of w k x] by (simp add: Let_def andThen_raised)
  qed
qed

lemma forEach_calls:
  assumes "\<And>w k x. calls (f w k x) = []"
  shows "calls (forEach w ks f x) = []"
proof (induction ks arbitrary: x w)
  case Nil
  then show ?case by simp
next
  case (Cons k ks)
  show ?case
  proof (cases "raised (f w k x)")
    case None
    then show ?thesis using Cons [of "after w (f w k x)" "val (f w k x)"] assms [of w k x]
      by (simp add: Let_def andThen_fields)
  next
    case (Some e)
    then show ?thesis using assms [of w k x] by (simp add: Let_def andThen_raised)
  qed
qed

lemma forEach_ops:
  assumes "\<And>w k x. list_all P (ops (f w k x))"
  shows "list_all P (ops (forEach w ks f x))"
proof (induction ks arbitrary: x w)
  case Nil
  then show ?case by simp
next
  case (Cons k ks)
  show ?case
  proof (cases "raised (f w k x)")
    case None
    then show ?thesis using Cons [of "after w (f w k x)" "val (f w k x)"] assms [of w k x]
      by (simp add: Let_def andThen_fields)
  next
    case (Some e)
    then show ?thesis using assms [of w k x] by (simp add: Let_def andThen_raised)
  qed
qed

lemma forEach_returns:
  assumes "\<And>k x. k \<in> set ks \<Longrightarrow> P x \<Longrightarrow>
      raised (f w k x) = None \<and> P (val (f w k x)) \<and> calls (f w k x) = []"
    and "P x"
  shows "raised (forEach w ks f x) = None \<and> P (val (forEach w ks f x))"
  using assms
proof (induction ks arbitrary: x)
  case Nil
  then show ?case by simp
next
  case (Cons k ks)
  have s: "raised (f w k x) = None" "P (val (f w k x))" "calls (f w k x) = []"
    using Cons.prems(1) [of k x] Cons.prems(2) by simp_all
  have "raised (forEach w ks f (val (f w k x))) = None \<and>
      P (val (forEach w ks f (val (f w k x))))"
    using Cons.IH [of "val (f w k x)"] Cons.prems(1) s(2) by simp
  then show ?case using s by (simp add: Let_def andThen_fields)
qed

lemma entered_fields [simp]:
  "val (entered c r) = val r" "ops (entered c r) = ops r"
  "calls (entered c r) = c # calls r" "raised (entered c r) = raised r"
  by (simp_all add: entered_def)

lemma setAttribute_frame:
  "map_option without_attributes (val (setAttribute w target name v)) =
     map_option without_attributes target"
  "calls (setAttribute w target name v) = []"
  by (cases "(w, target, name, v)" rule: setAttribute.cases; simp)+

lemma removeAttribute_frame:
  "map_option without_attributes (val (removeAttribute target name)) =
     map_option without_attributes target"
  "calls (removeAttribute target name) = []"
  by (cases "(target, name)" rule: removeAttribute.cases; simp)+

lemma setProp_frame:
  "map_option without_attributes (val (setProp w target name v)) =
     map_option without_attributes target"
  "calls (setProp w target name v) = []"
  by (simp_all add: setProp_def setAttribute_frame)

lemma setProp_returns:
  "isElement target \<Longrightarrow>
     isCustomProp name \<or> valid_attribute_name w (if name = ''className'' then ''class'' else name) \<Longrightarrow>
     raised (setProp w target name v) = None \<and> isElement (val (setProp w target name v))"
  by (cases target rule: isElement.cases; auto simp add: setProp_def)

lemma removeProp_frame:
  "map_option without_attributes (val (removeProp target name v)) =
     map_option without_attributes target"
  "calls (removeProp target name v) = []"
  by (simp_all add: removeProp_def removeAttribute_frame)

lemma setProps_frame:
  "map_option without_attributes (val (setProps w target ps)) = map_option without_attributes target"
  "calls (setProps w target ps) = []"
  unfolding setProps_def
  by (rule forEach_frame forEach_calls, simp add: setProp_frame)+

lemma setProps_returns:
  assumes "isElement target"
    and "list_all (\<lambda>name. isCustomProp name \<or>
           valid_attribute_name w (if name = ''className'' then ''class'' else name))
         (Object_keys ps)"
  shows "raised (setProps w target ps) = None \<and> isElement (val (setProps w target ps))"
  unfolding setProps_def
proof (rule forEach_returns)
  show "isElement target" by fact
next
  fix k x assume "k \<in> set (Object_keys ps)" "isElement x"
  then show "raised (setProp w x k (get ps k)) = None \<and>
      isElement (val (setProp w x k (get ps k))) \<and> calls (setProp w x k (get ps k)) = []"
    using assms(2) setProp_returns [of x k w "get ps k"]
    by (simp add: list_all_iff setProp_frame)
qed

lemma addEventListener_frame:
  "map_option without_listeners (val (addEventListener target ev f)) =
     map_option without_listeners target"
  "calls (addEventListener target ev f) = []"
  by (cases "(target, ev, f)" rule: addEventListener.cases; simp)+

lemma addEventListeners_frame:
  "map_option without_listeners (val (addEventListeners w target ps)) =
     map_option without_listeners target"
  "calls (addEventListeners w target ps) = []"
  unfolding addEventListeners_def
  by (rule forEach_frame forEach_calls, simp add: addEventListener_frame)+

lemma updateProp_frame:
  "map_option without_attributes (val (updateProp w target name newValue oldValue)) =
     map_option without_attributes target"
  by (simp add: updateProp_def setProp_frame removeProp_frame split: sum.splits)

lemma updateProps_frame:
  "map_option without_attributes (val (updateProps w target newProps oldProps)) =
     map_option without_attributes target"
  unfolding updateProps_def Let_def
  by (rule forEach_frame) (rule updateProp_frame)

lemma without_attributes_listeners:
  "map_option without_attributes x = map_option without_attributes y \<Longrightarrow>
     map_option listeners x = map_option listeners y"
  by (cases x rule: isElement.cases; cases y rule: isElement.cases) auto

lemma updateProp_calls:
  "calls (updateProp w target name newValue oldValue) = [(name, newValue, oldValue)]"
  by (simp add: updateProp_def setProp_frame removeProp_frame split: sum.splits)

lemma forEach_calls_map:
  assumes "\<And>w k x. calls (f w k x) = [g k]"
  shows "raised (forEach w ks f x) = None \<Longrightarrow> calls (forEach w ks f x) = map g ks"
proof (induction ks arbitrary: x w)
  case Nil
  then show ?case by simp
next
  case (Cons k ks)
  show ?case
  proof (cases "raised (f w k x)")
    case None
    then have "raised (forEach (after w (f w k x)) ks f (val (f w k x))) = None"
      using Cons.prems by (simp add: Let_def andThen_fields)
    then show ?thesis using Cons.IH None assms [of w k x]
      by (simp add: Let_def andThen_fields)
  next
    case (Some e)
    then show ?thesis using Cons.prems by (simp add: Let_def andThen_raised)
  qed
qed

subsection \<open>What \<open>createElement\<close> returns\<close>

lemma collect_raised: "raised (collect rs) = None \<longleftrightarrow> (\<forall>r \<in> set rs. raised r = None)"
proof (induction rs)
  case Nil
  then show ?case by simp
next
  case (Cons r rs)
  show ?case
  proof (cases "raised r")
    case None
    note r = this
    show ?thesis
    proof (cases "raised (collect rs)")
      case None
      then show ?thesis using r Cons by (simp add: andThen_fields)
    next
      case (Some e)
      then show ?thesis using r Cons by (auto simp add: andThen_fields andThen_raised)
    qed
  next
    case (Some e)
    then show ?thesis by (simp add: andThen_raised)
  qed
qed

lemma collect_val: "raised (collect rs) = None \<Longrightarrow> val (collect rs) = map val rs"
proof (induction rs)
  case Nil
  then show ?case by simp
next
  case (Cons r rs)
  then have "raised r = None" "raised (collect rs) = None"
    using collect_raised [of "r # rs"] collect_raised [of rs] by simp_all
  then show ?case using Cons.IH by (simp add: andThen_fields)
qed

lemma collect_calls: "(\<And>r. r \<in> set rs \<Longrightarrow> calls r = []) \<Longrightarrow> calls (collect rs) = []"
proof (induction rs)
  case Nil
  then show ?case by simp
next
  case (Cons r rs)
  have c: "calls r = []" "calls (collect rs) = []" using Cons by simp_all
  show ?case
  proof (cases "raised r")
    case None
    note r = this
    show ?thesis
    proof (cases "raised (collect rs)")
      case None
      then show ?thesis using r c by (simp add: andThen_fields)
    next
      case (Some e)
      then show ?thesis using r c by (simp add: andThen_fields andThen_raised)
    qed
  next
    case (Some e)
    then show ?thesis using c by (simp add: andThen_raised)
  qed
qed

lemma forEach_appendChild:
  "forEach w (map Some ks') (\<lambda>w c e. appendChild e c) (Some (Element t as ls ks)) =
     \<lparr>val = Some (Element t as ls (ks @ ks')), ops = map AppendChild ks', calls = [],
      raised = None\<rparr>"
proof (induction ks' arbitrary: ks)
  case Nil
  then show ?case by (simp add: ok_def)
next
  case (Cons k ks')
  show ?case using Cons [of "ks @ [k]"] by (simp add: Let_def andThen_def did_def)
qed

lemma all_Some: "(\<And>x. x \<in> set xs \<Longrightarrow> \<exists>n. x = Some n) \<Longrightarrow> \<exists>ks. xs = map Some ks"
proof (induction xs)
  case Nil
  then show ?case by simp
next
  case (Cons x xs)
  obtain n where n: "x = Some n" using Cons.prems [of x] by auto
  obtain ks where ks: "xs = map Some ks" using Cons by auto
  have "x # xs = map Some (n # ks)" using n ks by simp
  then show ?case by (rule exI)
qed

lemma dom_calls [simp]:
  "calls (document_createElement w ty) = []"
  "calls (setAttribute w target name v) = []"
  "calls (removeAttribute target name) = []"
  "calls (appendChild target c) = []"
  "calls (removeChild target r) = []"
  "calls (replaceChild target c r) = []"
  by (simp add: document_createElement_def, simp_all add: setAttribute_frame removeAttribute_frame)
     (cases "(target, c)" rule: appendChild.cases, simp_all,
      cases "(target, r)" rule: removeChild.cases, simp_all,
      cases "(target, c, r)" rule: replaceChild.cases, simp_all)

lemma andThen_calls:
  "calls r = [] \<Longrightarrow> (\<And>v. calls (f v) = []) \<Longrightarrow> calls (andThen r x f) = []"
  by (cases "raised r") (simp_all add: andThen_fields andThen_raised)

lemma createElement_calls [simp]: "calls (createElement w v) = []"
proof (induction w v rule: createElement.induct)
  case (1 w)
  then show ?case by simp
next
  case (2 w s)
  then show ?case by simp
next
  case (3 w type props children)
  have c3: "calls (collect (map (\<lambda>c. createElement w (Some c)) children)) = []"
    using 3 by (intro collect_calls) auto
  show ?case
    by simp
      (intro andThen_calls setProps_frame addEventListeners_frame c3 forEach_calls dom_calls)
qed

lemma createElement_unfold:
  "createElement w (Some (VElem type props children)) =
     (if valid_element_name w type then
        andThen (setProps w (Some (Element type [] [] [])) props) None (\<lambda>el.
        andThen (addEventListeners w el props) None (\<lambda>el.
        andThen (collect (map (\<lambda>c. createElement w (Some c)) children)) None (\<lambda>created.
        forEach w created (\<lambda>w c e. appendChild e c) el)))
      else throw InvalidCharacterError None)"
  by (simp add: document_createElement_def)

declare createElement.simps(3) [simp del]

lemma createElement_valid_tag:
  "raised (createElement w (Some (VElem type props children))) = None \<Longrightarrow>
     valid_element_name w type"
  by (simp add: createElement_unfold split: if_splits)


lemma andThen_returns:
  "raised (andThen r x f) = None \<longleftrightarrow> raised r = None \<and> raised (f (val r)) = None"
  by (cases "raised r") (simp_all add: andThen_fields andThen_raised)

lemma without_attributes_Element:
  "map_option without_attributes x = Some (Element t [] ls cs) \<Longrightarrow> \<exists>as. x = Some (Element t as ls cs)"
  by (cases x rule: isElement.cases) auto

lemma without_listeners_Element:
  "map_option without_listeners x = Some (Element t as [] cs) \<Longrightarrow> \<exists>ls. x = Some (Element t as ls cs)"
  by (cases x rule: isElement.cases) auto

lemma createElement_node:
  "raised (createElement w v) = None \<Longrightarrow> \<exists>n. val (createElement w v) = Some n"
  and createElement_Element:
  "raised (createElement w (Some (VElem ty ps cs))) = None \<Longrightarrow>
     \<exists>as ls ks. val (createElement w (Some (VElem ty ps cs))) = Some (Element ty as ls ks) \<and>
       map Some ks = map (\<lambda>c. val (createElement w (Some c))) cs \<and>
       (\<forall>c \<in> set cs. raised (createElement w (Some c)) = None)"
proof -
  have main: "raised (createElement w v) = None \<longrightarrow>
     (case v of
        None \<Rightarrow> False
      | Some (VText s) \<Rightarrow> val (createElement w v) = Some (Text s [])
      | Some (VElem ty ps cs) \<Rightarrow>
          (\<exists>as ls ks. val (createElement w v) = Some (Element ty as ls ks) \<and>
             map Some ks = map (\<lambda>c. val (createElement w (Some c))) cs \<and>
             (\<forall>c \<in> set cs. raised (createElement w (Some c)) = None)))" for v
  proof (induction w v rule: createElement.induct)
    case (1 w)
    then show ?case by simp
  next
    case (2 w s)
    then show ?case by simp
  next
    case (3 w type props children)
    let ?el = "Some (Element type [] [] [])"
    let ?r1 = "setProps w ?el props"
    let ?r2 = "addEventListeners w (val ?r1) props"
    let ?r3 = "collect (map (\<lambda>c. createElement w (Some c)) children)"
    let ?r4 = "forEach w (val ?r3) (\<lambda>w c e. appendChild e c) (val ?r2)"
    show ?case
    proof
      assume ret: "raised (createElement w (Some (VElem type props children))) = None"
      then have tag: "valid_element_name w type" by (rule createElement_valid_tag)
      have unfold: "createElement w (Some (VElem type props children)) =
          andThen ?r1 None (\<lambda>el. andThen (addEventListeners w el props) None
            (\<lambda>el. andThen ?r3 None (\<lambda>created. forEach w created (\<lambda>w c e. appendChild e c) el)))"
        using tag by (simp add: createElement_unfold)
      have r: "raised ?r1 = None" "raised ?r2 = None" "raised ?r3 = None" "raised ?r4 = None"
        using ret unfolding unfold by (simp_all add: andThen_returns)
      have v: "val (createElement w (Some (VElem type props children))) = val ?r4"
        unfolding unfold using r by (simp add: andThen_fields)
      obtain as where as: "val ?r1 = Some (Element type as [] [])"
        using setProps_frame(1) [of w ?el props] without_attributes_Element by fastforce
      obtain ls where ls: "val ?r2 = Some (Element type as ls [])"
        using addEventListeners_frame(1) [of w "val ?r1" props] as without_listeners_Element
        by fastforce
      have kids: "\<forall>c \<in> set children. raised (createElement w (Some c)) = None"
        using r(3) by (simp add: collect_raised)
      have r3: "val ?r3 = map (\<lambda>c. val (createElement w (Some c))) children"
        using r(3) by (simp add: collect_val comp_def)
      have "\<And>x. x \<in> set (val ?r3) \<Longrightarrow> \<exists>n. x = Some n"
      proof -
        fix x assume "x \<in> set (val ?r3)"
        then obtain c where c: "c \<in> set children" "x = val (createElement w (Some c))"
          unfolding r3 by auto
        from c(1) have "raised (createElement w (Some c)) = None \<longrightarrow>
           (case Some c of
              None \<Rightarrow> False
            | Some (VText s) \<Rightarrow> val (createElement w (Some c)) = Some (Text s [])
            | Some (VElem ty ps cs) \<Rightarrow>
                (\<exists>as ls ks. val (createElement w (Some c)) = Some (Element ty as ls ks) \<and>
                   map Some ks = map (\<lambda>c. val (createElement w (Some c))) cs \<and>
                   (\<forall>c \<in> set cs. raised (createElement w (Some c)) = None)))"
          by (rule 3)
        then show "\<exists>n. x = Some n"
          using kids c by (cases c) auto
      qed
      then obtain ks where ks: "val ?r3 = map Some ks" using all_Some by blast
      have "val ?r4 = Some (Element type as ls ks)"
        unfolding ks ls by (simp add: forEach_appendChild)
      then show "case Some (VElem type props children) of
          None \<Rightarrow> False
        | Some (VText s) \<Rightarrow> val (createElement w (Some (VElem type props children))) = Some (Text s [])
        | Some (VElem ty ps cs) \<Rightarrow>
            (\<exists>as ls ks. val (createElement w (Some (VElem type props children))) = Some (Element ty as ls ks) \<and>
               map Some ks = map (\<lambda>c. val (createElement w (Some c))) cs \<and>
               (\<forall>c \<in> set cs. raised (createElement w (Some c)) = None))"
        using v kids ks r3 by simp
    qed
  qed
  show "raised (createElement w v) = None \<Longrightarrow> \<exists>n. val (createElement w v) = Some n"
    using main [of v] by (auto split: option.splits vnode.splits)
  show "raised (createElement w (Some (VElem ty ps cs))) = None \<Longrightarrow>
     \<exists>as ls ks. val (createElement w (Some (VElem ty ps cs))) = Some (Element ty as ls ks) \<and>
       map Some ks = map (\<lambda>c. val (createElement w (Some c))) cs \<and>
       (\<forall>c \<in> set cs. raised (createElement w (Some c)) = None)"
    using main [of "Some (VElem ty ps cs)"] by simp
qed

lemma addEventListener_returns:
  "isElement target \<Longrightarrow> is_function f \<Longrightarrow>
     raised (addEventListener target ev f) = None \<and> isElement (val (addEventListener target ev f))"
  by (cases "(target, ev, f)" rule: addEventListener.cases) simp_all

lemma addEventListeners_returns:
  assumes "list_all (\<lambda>name. \<not> isEventProp name \<or> is_function (get ps name)) (Object_keys ps)"
    and "isElement target"
  shows "raised (addEventListeners w target ps) = None \<and>
         isElement (val (addEventListeners w target ps))"
  unfolding addEventListeners_def
proof (rule forEach_returns)
  show "isElement target" by fact
next
  fix k x assume "k \<in> set (Object_keys ps)" "isElement x"
  then show "raised (if isEventProp k then addEventListener x (extractEventName k) (get ps k) else ok x) = None \<and>
        isElement (val (if isEventProp k then addEventListener x (extractEventName k) (get ps k) else ok x)) \<and>
        calls (if isEventProp k then addEventListener x (extractEventName k) (get ps k) else ok x) = []"
    using assms(1) by (auto simp: list_all_iff addEventListener_returns addEventListener_frame)
qed

lemma createElement_returns:
  "invocable_handlers T \<Longrightarrow> accepted w T \<Longrightarrow> raised (createElement w (Some T)) = None"
proof (induction T)
  case (VText s)
  then show ?case by simp
next
  case (VElem type props children)
  let ?el = "Some (Element type [] [] [])"
  let ?r1 = "setProps w ?el props"
  let ?r2 = "addEventListeners w (val ?r1) props"
  let ?r3 = "collect (map (\<lambda>c. createElement w (Some c)) children)"
  let ?r4 = "forEach w (val ?r3) (\<lambda>w c e. appendChild e c) (val ?r2)"
  have unfold: "createElement w (Some (VElem type props children)) =
      andThen ?r1 None (\<lambda>el. andThen (addEventListeners w el props) None
        (\<lambda>el. andThen ?r3 None (\<lambda>created. forEach w created (\<lambda>w c e. appendChild e c) el)))"
    using VElem.prems(2) by (simp add: createElement_unfold)
  have r1: "raised ?r1 = None" "isElement (val ?r1)"
    using setProps_returns [of ?el w props] VElem.prems(2) by simp_all
  have r2: "raised ?r2 = None" "isElement (val ?r2)"
    using addEventListeners_returns [of props "val ?r1" w] VElem.prems(1) r1(2) by simp_all
  have kids: "\<forall>c \<in> set children. raised (createElement w (Some c)) = None"
    using VElem by (simp add: list_all_iff)
  then have r3: "raised ?r3 = None" by (simp add: collect_raised)
  then have v3: "val ?r3 = map (\<lambda>c. val (createElement w (Some c))) children"
    by (simp add: collect_val comp_def)
  have "\<And>x. x \<in> set (val ?r3) \<Longrightarrow> \<exists>n. x = Some n"
    unfolding v3 using kids createElement_node by auto
  then obtain ks where ks: "val ?r3 = map Some ks" using all_Some by blast
  obtain t as ls cs where el: "val ?r2 = Some (Element t as ls cs)"
    using r2(2) by (cases "val ?r2" rule: isElement.cases) auto
  have r4: "raised ?r4 = None" unfolding ks el by (simp add: forEach_appendChild)
  show ?case unfolding unfold using r1 r2 r3 r4 by (simp add: andThen_returns)
qed

lemma forEach_later:
  assumes "\<And>w k x. calls (f w k x) = []" and "\<And>w k x. f (later n w) k x = f w k x"
  shows "forEach (later n w) ks f x = forEach w ks f x"
proof (induction ks arbitrary: x)
  case Nil
  then show ?case by simp
next
  case (Cons k ks)
  have "forEach (later n w) ks f = forEach w ks f" using Cons by (intro ext)
  then show ?case using assms by (simp add: Let_def)
qed

lemma setAttribute_later [simp]: "setAttribute (later n w) target name v = setAttribute w target name v"
  by (cases "(w, target, name, v)" rule: setAttribute.cases) simp_all

lemma setProp_later [simp]: "setProp (later n w) target name v = setProp w target name v"
  by (simp add: setProp_def)

lemma setProps_later [simp]: "setProps (later n w) target ps = setProps w target ps"
  unfolding setProps_def by (rule forEach_later) (simp_all add: setProp_frame)

lemma addEventListeners_later [simp]:
  "addEventListeners (later n w) target ps = addEventListeners w target ps"
  unfolding addEventListeners_def by (rule forEach_later) (simp_all add: addEventListener_frame)

lemma createElement_later [simp]: "createElement (later n w) v = createElement w v"
proof (induction w v rule: createElement.induct)
  case (1 w)
  then show ?case by simp
next
  case (2 w s)
  then show ?case by simp
next
  case (3 w type props children)
  have kids: "map (\<lambda>c. createElement (later n w) (Some c)) children =
      map (\<lambda>c. createElement w (Some c)) children"
    using 3 by simp
  have ap: "\<And>cs el. forEach (later n w) cs (\<lambda>w c e. appendChild e c) el =
      forEach w cs (\<lambda>w c e. appendChild e c) el"
    by (rule forEach_later) simp_all
  show ?case by (simp add: createElement_unfold kids ap)
qed

lemma createElement_after [simp]: "createElement (after w r) v = createElement w v"
  by (simp add: after_def)

subsection \<open>Reconciling a tree against itself\<close>

lemma steady_later: "steady w T \<Longrightarrow> steady (later n w) T"
  by (simp add: steady_def)

lemma steady_child: "steady w (VElem t ps cs) \<Longrightarrow> c \<in> set cs \<Longrightarrow> steady w c"
  by (auto simp: steady_def list_all_iff)

lemma steady_props:
  "steady w (VElem t ps cs) \<Longrightarrow> name \<in> set (Object_keys ps) \<Longrightarrow>
     leaves_alone (global_newVal w k) (name, get ps name)"
  by (auto simp: steady_def list_all_iff)

lemma truthy_strict_eq: "truthy x \<Longrightarrow> strict_eq x x"
  by (cases x) (simp_all add: strict_eq_def)

lemma updateProp_steady:
  assumes "leaves_alone (global_newVal w 0) (name, x)"
  shows "updateProp w target name x x =
           \<lparr>val = target, ops = [], calls = [(name, x, x)], raised = None\<rparr>"
proof -
  obtain v where v: "global_newVal w 0 = Some v" "isCustomProp name \<or> truthy v \<and> truthy x"
    using assms by (auto simp: leaves_alone_def split: option.splits)
  show ?thesis
  proof (cases "isCustomProp name")
    case True
    then show ?thesis
      by (simp add: updateProp_def newVal_def v(1) setProp_def removeProp_def entered_def ok_def)
  next
    case False
    then have "truthy v" "truthy x" "strict_eq x x" using v(2) truthy_strict_eq by auto
    then show ?thesis
      by (simp add: updateProp_def newVal_def v(1) entered_def ok_def)
  qed
qed

lemma forEach_quiet:
  assumes "\<And>n k x. k \<in> set ks \<Longrightarrow>
      val (f (later n w) k x) = x \<and> ops (f (later n w) k x) = [] \<and>
      raised (f (later n w) k x) = None"
  shows "val (forEach (later m w) ks f x) = x \<and> ops (forEach (later m w) ks f x) = [] \<and>
         raised (forEach (later m w) ks f x) = None"
  using assms
proof (induction ks arbitrary: m)
  case Nil
  then show ?case by simp
next
  case (Cons k ks)
  let ?r = "f (later m w) k x"
  have r: "val ?r = x" "ops ?r = []" "raised ?r = None"
    using Cons.prems [of k m x] by simp_all
  have a: "after (later m w) ?r = later (m + length (calls ?r)) w"
    by (simp add: after_def)
  have "val (forEach (later (m + length (calls ?r)) w) ks f x) = x \<and>
      ops (forEach (later (m + length (calls ?r)) w) ks f x) = [] \<and>
      raised (forEach (later (m + length (calls ?r)) w) ks f x) = None"
    using Cons.IH [of "m + length (calls ?r)"] Cons.prems by simp
  then show ?case using r a by (simp add: Let_def andThen_fields)
qed

lemma updateProps_steady:
  assumes "steady w (VElem t ps cs)"
  shows "val (updateProps w target ps (Some ps)) = target \<and>
         ops (updateProps w target ps (Some ps)) = [] \<and>
         raised (updateProps w target ps (Some ps)) = None"
proof -
  let ?ks = "Object_keys (Object_assign [] [ps, ps])"
  let ?f = "\<lambda>w name t. updateProp w t name (get ps name) (get ps name)"
  have keys: "set ?ks = set (Object_keys ps)"
    using fold_update_keys [of "ps @ ps" "[]"] by (simp add: Object_keys_def Object_assign_def)
  have "val (forEach (later 0 w) ?ks ?f target) = target \<and>
      ops (forEach (later 0 w) ?ks ?f target) = [] \<and>
      raised (forEach (later 0 w) ?ks ?f target) = None"
  proof (rule forEach_quiet)
    fix n k x assume "k \<in> set ?ks"
    then have "leaves_alone (global_newVal (later n w) 0) (k, get ps k)"
      using steady_props [OF assms, of k n] keys by simp
    then show "val (?f (later n w) k x) = x \<and> ops (?f (later n w) k x) = [] \<and>
        raised (?f (later n w) k x) = None"
      by (simp add: updateProp_steady)
  qed
  then show ?thesis by (simp add: updateProps_def Let_def)
qed

lemma update_loop_same_steady:
  assumes IH: "\<And>c n parent index. c \<in> set cs \<Longrightarrow>
        childNode parent index = val (createElement w (Some c)) \<Longrightarrow>
        val (update (later n w) parent (Some c) (Some c) (Some index)) = parent \<and>
        ops (update (later n w) parent (Some c) (Some c) (Some index)) = [] \<and>
        raised (update (later n w) parent (Some c) (Some c) (Some index)) = None"
    and E: "childNode parent index = Some (Element ty as ls ks)"
    and ks: "map Some ks = map (\<lambda>c. val (createElement w (Some c))) cs"
  shows "val (update_loop (later n w) parent index cs cs i) = parent \<and>
         ops (update_loop (later n w) parent index cs cs i) = [] \<and>
         raised (update_loop (later n w) parent index cs cs i) = None"
proof (induction "length cs - i" arbitrary: i n)
  case 0
  then show ?case by (simp add: update_loop_done)
next
  case (Suc k)
  then have i: "i < length cs" by simp
  have len: "length ks = length cs" using ks by (metis length_map)
  have p: "parent \<noteq> None" using E by (cases parent) auto
  have c: "item cs i = Some (cs ! i)" "cs ! i \<in> set cs" using i by (simp_all add: item_def)
  let ?u = "update (later n w) (childNode parent index) (Some (cs ! i)) (Some (cs ! i)) (Some i)"
  have "Some (ks ! i) = val (createElement w (Some (cs ! i)))"
    using ks i len by (metis nth_map)
  then have "childNode (childNode parent index) i = val (createElement w (Some (cs ! i)))"
    using i len E by (simp add: item_def)
  then have u: "val ?u = childNode parent index" "ops ?u = []" "raised ?u = None"
    using IH [OF c(2), of "childNode parent index" i n] by simp_all
  have a: "after (later n w) ?u = later (n + length (calls ?u)) w"
    by (simp add: after_def)
  have step: "update_loop (later n w) parent index cs cs i =
      andThen (within parent index ?u) (putChild parent index (val ?u))
        (\<lambda>q. update_loop (later (n + length (calls ?u)) w) q index cs cs (Suc i))"
    using i p by (subst update_loop_step) (simp_all add: c(1) a)
  have nxt: "val (update_loop (later (n + length (calls ?u)) w) parent index cs cs (Suc i)) = parent \<and>
      ops (update_loop (later (n + length (calls ?u)) w) parent index cs cs (Suc i)) = [] \<and>
      raised (update_loop (later (n + length (calls ?u)) w) parent index cs cs (Suc i)) = None"
    using Suc.hyps(1) [of "Suc i" "n + length (calls ?u)"] Suc.hyps(2) by simp
  show ?case using u nxt by (simp add: step andThen_fields)
qed

lemma update_same_steady:
  "no_empty_text T \<Longrightarrow> steady w T \<Longrightarrow> raised (createElement w (Some T)) = None \<Longrightarrow>
     childNode parent index = val (createElement w (Some T)) \<Longrightarrow>
     val (update (later n w) parent (Some T) (Some T) (Some index)) = parent \<and>
     ops (update (later n w) parent (Some T) (Some T) (Some index)) = [] \<and>
     raised (update (later n w) parent (Some T) (Some T) (Some index)) = None"
proof (induction T arbitrary: parent index n)
  case (VText s)
  then show ?case by (simp add: update_text_same)
next
  case (VElem ty ps cs)
  obtain as ls ks where k: "val (createElement w (Some (VElem ty ps cs))) = Some (Element ty as ls ks)"
      "map Some ks = map (\<lambda>c. val (createElement w (Some c))) cs"
      "\<forall>c \<in> set cs. raised (createElement w (Some c)) = None"
    using createElement_Element [OF VElem.prems(3)] by blast
  have E: "childNode parent index = Some (Element ty as ls ks)" using VElem.prems(4) k(1) by simp
  have p: "parent \<noteq> None" using E by (cases parent) auto
  have kids: "\<And>c n parent index. c \<in> set cs \<Longrightarrow>
        childNode parent index = val (createElement w (Some c)) \<Longrightarrow>
        val (update (later n w) parent (Some c) (Some c) (Some index)) = parent \<and>
        ops (update (later n w) parent (Some c) (Some c) (Some index)) = [] \<and>
        raised (update (later n w) parent (Some c) (Some c) (Some index)) = None"
    using VElem.IH VElem.prems(1,2) k(3) steady_child [of w ty ps cs]
    by (simp add: list_all_iff)
  note loop = update_loop_same_steady [of cs w, OF kids E k(2)]
  let ?r = "within parent index (updateProps (later n w) (childNode parent index) ps (Some ps))"
  have r: "val ?r = parent" "ops ?r = []" "raised ?r = None"
    using updateProps_steady [OF steady_later [OF VElem.prems(2)], of n "childNode parent index"]
    by simp_all
  have a: "after (later n w) ?r = later (n + length (calls ?r)) w"
    by (simp add: after_def)
  show ?case
  proof (cases "ty = []")
    case True
    then show ?thesis by (simp add: update_elem_same)
  next
    case False
    then have eq: "update (later n w) parent (Some (VElem ty ps cs)) (Some (VElem ty ps cs)) (Some index) =
        andThen ?r (val ?r) (\<lambda>q. update_loop (later (n + length (calls ?r)) w) q index cs cs 0)"
      using p a by (auto simp add: update_elem_same Let_def)
    show ?thesis using r loop [of "n + length (calls ?r)" 0] by (simp add: eq andThen_fields)
  qed
qed

subsection \<open>The listeners of the nodes that \<open>update\<close> patches in place\<close>

lemma andThen_val_frame:
  "F x = y \<Longrightarrow> (raised r = None \<Longrightarrow> F (val (f (val r))) = y) \<Longrightarrow>
     F (val (andThen r x f)) = y"
  by (cases "raised r") (simp_all add: andThen_fields andThen_raised)

lemmas andThen_listeners = andThen_val_frame [where F = "map_option listeners"]

lemma parent_listeners [simp]:
  "map_option listeners (val (appendChild p c)) = map_option listeners p"
  "map_option listeners (val (removeChild p r)) = map_option listeners p"
  "map_option listeners (val (replaceChild p c r)) = map_option listeners p"
  "map_option listeners (putChild p i c) = map_option listeners p"
     apply (cases "(p, c)" rule: appendChild.cases; simp)
    apply (cases "(p, r)" rule: removeChild.cases; simp)
   apply (cases "(p, c, r)" rule: replaceChild.cases; simp)
  apply (cases "(p, i, c)" rule: putChild.cases; simp)
  done

lemma update_parent_listeners:
  "map_option listeners (val (update w parent newNode oldNode index)) = map_option listeners parent"
  and update_loop_parent_listeners:
  "map_option listeners (val (update_loop w parent idx newChildren oldChildren i)) =
     map_option listeners parent"
proof (induction w parent newNode oldNode index and w parent idx newChildren oldChildren i
    rule: update_update_loop.induct)
  case (1 w parent newNode oldNode)
  then show ?case by (simp add: update.simps(1))
next
  case (2 w parent newNode oldNode index)
  show ?case
  proof (cases "truthy_node oldNode \<and> truthy_node newNode")
    case False
    then show ?thesis
      by (cases "truthy_node oldNode")
        (auto simp: update_absent_old update_absent_new intro!: andThen_listeners)
  next
    case True
    then obtain new old where no: "newNode = Some new" "oldNode = Some old"
      by (cases newNode; cases oldNode) auto
    show ?thesis
    proof (cases "changed new old")
      case True
      then show ?thesis using \<open>truthy_node oldNode \<and> truthy_node newNode\<close> no
        by (auto simp: update_changed intro!: andThen_listeners)
    next
      case False
      show ?thesis
      proof (cases "\<exists>ty ps cs ty' ps' cs'. new = VElem ty ps cs \<and> old = VElem ty' ps' cs' \<and> ty \<noteq> [] \<and> parent \<noteq> None")
        case True
        then obtain ty ps cs ty' ps' cs' where e: "new = VElem ty ps cs" "old = VElem ty' ps' cs'"
          "ty \<noteq> []" "parent \<noteq> None" by blast
        let ?r = "within parent index (updateProps w (childNode parent index) ps (Some ps'))"
        have eq: "update w parent newNode oldNode (Some index) =
            andThen ?r (val ?r) (\<lambda>parent. update_loop (after w ?r) parent index cs cs' 0)"
          using e no False by (auto simp add: update.simps(2) Let_def)
        have loop: "\<And>q. map_option listeners (val (update_loop (after w ?r) q index cs cs' 0)) =
            map_option listeners q"
          using 2 [OF _ _ _ _ _ _ _ _ _ _ _ refl] e no False True \<open>truthy_node oldNode \<and> truthy_node newNode\<close>
          by simp
        show ?thesis unfolding eq
          by (rule andThen_listeners) (simp_all add: loop [unfolded after_within])
      next
        case no_patch: False
        then have "update w parent newNode oldNode (Some index) = ok parent \<or>
            update w parent newNode oldNode (Some index) = throw TypeError None \<and> parent = None"
          using no False \<open>truthy_node oldNode \<and> truthy_node newNode\<close>
          by (cases new; cases old) (auto simp add: update.simps(2))
        then show ?thesis by auto
      qed
    qed
  qed
next
  case (3 w parent index newChildren oldChildren i)
  show ?case
  proof (cases "(i < length newChildren \<or> i < length oldChildren) \<and> parent \<noteq> None")
    case True
    let ?u = "update w (childNode parent index) (item newChildren i) (item oldChildren i) (Some i)"
    have next_ok: "\<And>q. map_option listeners
          (val (update_loop (after w ?u) q index newChildren oldChildren (Suc i))) =
        map_option listeners q"
      using 3(2) [OF _ _ refl] True by simp
    have eq: "update_loop w parent index newChildren oldChildren i =
       andThen (within parent index ?u) (putChild parent index (val ?u))
         (\<lambda>q. update_loop (after w ?u) q index newChildren oldChildren (Suc i))"
      using True by (intro update_loop_step) simp_all
    show ?thesis unfolding eq
      by (rule andThen_listeners) (simp_all add: next_ok)
  next
    case False
    then show ?thesis by (subst update_loop.simps) auto
  qed
qed

lemma childNode_putChild:
  assumes a: "map_option F c = map_option F (childNode parent index)"
  shows "childNode (putChild parent index c) index = c"
proof (cases parent)
  case None
  then show ?thesis using a by (cases c) auto
next
  case (Some p)
  show ?thesis
  proof (cases p)
    case (Text s ls)
    then show ?thesis using a Some by (cases c) (auto simp: item_def)
  next
    case (Element t as ls cs)
    then show ?thesis using a Some by (cases c) (auto simp: item_def split: if_splits)
  qed
qed

lemma update_loop_child_listeners:
  "map_option listeners (childNode (val (update_loop w parent index news olds i)) index) =
     map_option listeners (childNode parent index)"
proof (induction "max (length news) (length olds) - i" arbitrary: i parent w)
  case 0
  then show ?case by (simp add: update_loop_done)
next
  case (Suc k)
  then have i: "i < length news \<or> i < length olds" by auto
  show ?case
  proof (cases parent)
    case None
    then show ?thesis using i by (simp add: update_loop_undefined)
  next
    case (Some p)
    let ?u = "update w (childNode parent index) (item news i) (item olds i) (Some i)"
    let ?c = "val ?u"
    let ?q = "putChild parent index ?c"
    have c: "map_option listeners ?c = map_option listeners (childNode parent index)"
      by (rule update_parent_listeners)
    have q: "childNode ?q index = ?c" using c by (rule childNode_putChild)
    have eq: "update_loop w parent index news olds i =
       andThen (within parent index ?u) ?q
         (\<lambda>q. update_loop (after w ?u) q index news olds (Suc i))"
      using i Some by (intro update_loop_step) simp_all
    have nxt: "map_option listeners
          (childNode (val (update_loop (after w ?u) ?q index news olds (Suc i))) index) =
        map_option listeners (childNode ?q index)"
      by (rule Suc.hyps(1)) (use Suc.hyps(2) in simp)
    show ?thesis unfolding eq
      by (rule andThen_val_frame [where F = "\<lambda>p. map_option listeners (childNode p index)"])
         (simp_all add: q c nxt)
  qed
qed

lemma updateProps_listeners:
  "map_option listeners (val (updateProps w target newProps oldProps)) =
     map_option listeners target"
  by (rule without_attributes_listeners) (rule updateProps_frame)

lemma update_child_listeners:
  assumes "truthy_node (Some old)" "truthy_node (Some new)" "\<not> changed new old"
  shows "map_option listeners
           (childNode (val (update w parent (Some new) (Some old) (Some index))) index) =
         map_option listeners (childNode parent index)"
proof (cases "\<exists>ty ps cs ty' ps' cs'. new = VElem ty ps cs \<and> old = VElem ty' ps' cs' \<and> ty \<noteq> [] \<and> parent \<noteq> None")
  case True
  then obtain ty ps cs ty' ps' cs' where e: "new = VElem ty ps cs" "old = VElem ty' ps' cs'"
    "ty \<noteq> []" "parent \<noteq> None" by blast
  let ?r = "within parent index (updateProps w (childNode parent index) ps (Some ps'))"
  have eq: "update w parent (Some new) (Some old) (Some index) =
      andThen ?r (val ?r) (\<lambda>parent. update_loop (after w ?r) parent index cs cs' 0)"
    using e assms by (auto simp add: update.simps(2) Let_def)
  have c: "childNode (putChild parent index
        (val (updateProps w (childNode parent index) ps (Some ps')))) index =
      val (updateProps w (childNode parent index) ps (Some ps'))"
    by (rule childNode_putChild [where F = listeners]) (rule updateProps_listeners)
  show ?thesis unfolding eq
    by (rule andThen_val_frame [where F = "\<lambda>p. map_option listeners (childNode p index)"])
       (simp_all add: c updateProps_listeners update_loop_child_listeners)
next
  case False
  then have "update w parent (Some new) (Some old) (Some index) = ok parent \<or>
      update w parent (Some new) (Some old) (Some index) = throw TypeError None \<and> parent = None"
    using assms by (cases new; cases old) (auto simp add: update.simps(2))
  then show ?thesis by auto
qed

subsection \<open>Event properties in the property diff\<close>

lemma updateProp_custom:
  "isCustomProp name \<Longrightarrow>
     updateProp w target name newValue oldValue =
       \<lparr>val = target, ops = [], calls = [(name, newValue, oldValue)],
        raised = (case global_newVal w 0 of None \<Rightarrow> Some ReferenceError | Some v \<Rightarrow> None)\<rparr>"
  by (simp add: updateProp_def newVal_def setProp_def removeProp_def entered_def ok_def throw_def
      split: option.splits)

lemma setAttribute_ops: "list_all (\<lambda>a. \<not> subscribes a) (ops (setAttribute w target name v))"
  by (cases "(w, target, name, v)" rule: setAttribute.cases) simp_all

lemma removeAttribute_ops: "list_all (\<lambda>a. \<not> subscribes a) (ops (removeAttribute target name))"
  by (cases "(target, name)" rule: removeAttribute.cases) simp_all

lemma updateProp_ops:
  "list_all (\<lambda>a. \<not> subscribes a) (ops (updateProp w target name newValue oldValue))"
  by (simp add: updateProp_def setProp_def removeProp_def setAttribute_ops removeAttribute_ops
      split: sum.splits)

lemma updateProps_ops:
  "list_all (\<lambda>a. \<not> subscribes a) (ops (updateProps w target newProps oldProps))"
  unfolding updateProps_def Let_def by (rule forEach_ops) (rule updateProp_ops)

lemma handler_example:
  "valid_element_name w tag \<Longrightarrow>
     createElement w (Some (h tag (Some [(''onClick'', JRef fn1)]) [])) =
       \<lparr>val = Some (Element tag [] [(''click'', JRef fn1)] []),
        ops = [AddEventListener ''click'' (JRef fn1)], calls = [], raised = None\<rparr>"
proof -
  have n: "extractEventName ''onClick'' = ''click''" by code_simp
  have e: "isEventProp ''onClick''" "isCustomProp ''onClick''" by code_simp+
  assume "valid_element_name w tag"
  then show ?thesis
    by (simp add: h_def createElement_unfold Let_def setProps_def addEventListeners_def
        Object_keys_def get_def setProp_def n e andThen_def ok_def did_def)
qed

lemma handler_update_example:
  "val (update w (Some (Element p as ls [Element tag [] [(''click'', JRef fn1)] []]))
       (Some (h tag (Some [(''onClick'', JRef fn2)]) []))
       (Some (h tag (Some [(''onClick'', JRef fn1)]) [])) None) =
     Some (Element p as ls [Element tag [] [(''click'', JRef fn1)] []])"
  "ops (update w (Some (Element p as ls [Element tag [] [(''click'', JRef fn1)] []]))
       (Some (h tag (Some [(''onClick'', JRef fn2)]) []))
       (Some (h tag (Some [(''onClick'', JRef fn1)]) [])) None) = []"
proof -
  have e: "isCustomProp ''onClick''" by code_simp
  let ?t = "Some (Element tag [] [(''click'', JRef fn1)] [])"
  have u: "updateProps w ?t [(''onClick'', JRef fn2)] (Some [(''onClick'', JRef fn1)]) =
      \<lparr>val = ?t, ops = [], calls = [(''onClick'', JRef fn2, JRef fn1)],
       raised = (case global_newVal w 0 of None \<Rightarrow> Some ReferenceError | Some v \<Rightarrow> None)\<rparr>"
    by (cases "global_newVal w 0")
      (simp_all add: updateProps_def Let_def Object_keys_def Object_assign_def get_def
        updateProp_custom [OF e] andThen_def ok_def)
  show "val (update w (Some (Element p as ls [Element tag [] [(''click'', JRef fn1)] []]))
       (Some (h tag (Some [(''onClick'', JRef fn2)]) []))
       (Some (h tag (Some [(''onClick'', JRef fn1)]) [])) None) =
     Some (Element p as ls [Element tag [] [(''click'', JRef fn1)] []])"
    by (simp add: update.simps(1) h_def update_elem_same Let_def u item_def andThen_def
        update_loop_done split: option.splits)
  show "ops (update w (Some (Element p as ls [Element tag [] [(''click'', JRef fn1)] []]))
       (Some (h tag (Some [(''onClick'', JRef fn2)]) []))
       (Some (h tag (Some [(''onClick'', JRef fn1)]) [])) None) = []"
    by (simp add: update.simps(1) h_def update_elem_same Let_def u item_def andThen_def
        update_loop_done split: option.splits)
qed

subsection \<open>Trees without properties\<close>

lemma plain_invocable: "plain T \<Longrightarrow> invocable_handlers T"
  by (induction T) (auto simp: list_all_iff Object_keys_def)

lemma plain_truthy: "plain T \<Longrightarrow> truthy_node (Some T)"
  by (cases T) auto

lemma createElement_plain:
  assumes "plain (VElem ty ps cs)" and "raised (createElement w (Some (VElem ty ps cs))) = None"
  shows "\<exists>ks. createElement w (Some (VElem ty ps cs)) =
           \<lparr>val = Some (Element ty [] [] ks),
            ops = ops (createElement w (Some (VElem ty ps cs))),
            calls = [], raised = None\<rparr> \<and>
         map Some ks = map (\<lambda>c. val (createElement w (Some c))) cs \<and>
         (\<forall>c \<in> set cs. raised (createElement w (Some c)) = None)"
proof -
  have ps: "ps = []" using assms by simp
  note r = assms(2)
  then obtain as ls ks where
    k: "val (createElement w (Some (VElem ty ps cs))) = Some (Element ty as ls ks)"
      "map Some ks = map (\<lambda>c. val (createElement w (Some c))) cs"
      "\<forall>c \<in> set cs. raised (createElement w (Some c)) = None"
    using createElement_Element by blast
  have tag: "valid_element_name w ty" using r by (rule createElement_valid_tag)
  let ?r3 = "collect (map (\<lambda>c. createElement w (Some c)) cs)"
  have r3: "raised ?r3 = None" "val ?r3 = map Some ks"
    using k(2,3) by (simp_all add: collect_raised collect_val comp_def)
  have "val (createElement w (Some (VElem ty ps cs))) = Some (Element ty [] [] ks)"
    using r3 tag by (simp add: ps createElement_unfold setProps_def addEventListeners_def
        Object_keys_def andThen_fields forEach_appendChild)
  then have "createElement w (Some (VElem ty ps cs)) =
      \<lparr>val = Some (Element ty [] [] ks),
       ops = ops (createElement w (Some (VElem ty ps cs))), calls = [], raised = None\<rparr>"
    using r by (intro res.equality) simp_all
  then show ?thesis using k(2,3) by blast
qed

lemma childNode_Some_parent: "childNode parent index = Some c \<Longrightarrow> parent \<noteq> None"
  by (cases parent) auto

lemma within_ok [simp]: "within parent index (ok c) = ok (putChild parent index c)"
  by (simp add: within_def ok_def)

lemma putChild_twice [simp]:
  "putChild (putChild parent i (Some a)) i (Some b) = putChild parent i (Some b)"
  by (cases "(parent, i, Some a)" rule: putChild.cases) auto

lemma update_loop_same_plain:
  assumes IH: "\<And>c parent index. c \<in> set cs \<Longrightarrow>
        childNode parent index = val (createElement w (Some c)) \<Longrightarrow>
        update w parent (Some c) (Some c) (Some index) = ok parent"
    and E: "childNode parent index = Some (Element ty as ls ks)"
    and ks: "map Some ks = map (\<lambda>c. val (createElement w (Some c))) cs"
    and n: "n \<le> length cs"
  shows "i \<le> n \<Longrightarrow> update_loop w parent index (take n cs) cs i =
           update_loop w parent index (take n cs) cs n"
proof (induction "n - i" arbitrary: i)
  case 0
  then show ?case by simp
next
  case (Suc k)
  then have i: "i < n" "i < length cs" using n by simp_all
  have len: "length ks = length cs" using ks by (metis length_map)
  have p: "parent \<noteq> None" using E by (rule childNode_Some_parent)
  have c: "item (take n cs) i = Some (cs ! i)" "item cs i = Some (cs ! i)" "cs ! i \<in> set cs"
    using i by (simp_all add: item_def)
  have "Some (ks ! i) = val (createElement w (Some (cs ! i)))"
    using ks i len by (metis nth_map)
  then have "childNode (Some (Element ty as ls ks)) i = val (createElement w (Some (cs ! i)))"
    using i len by (simp add: item_def)
  then have u: "update w (childNode parent index) (Some (cs ! i)) (Some (cs ! i)) (Some i) =
      ok (childNode parent index)"
    using IH [OF c(3)] E by simp
  have "update_loop w parent index (take n cs) cs i =
      update_loop w parent index (take n cs) cs (Suc i)"
    using i p by (subst update_loop_step) (simp_all add: c u)
  then show ?case using Suc.hyps(1) [of "Suc i"] Suc.hyps(2) i by simp
qed

lemma update_same_plain:
  "plain T \<Longrightarrow> raised (createElement w (Some T)) = None \<Longrightarrow>
     childNode parent index = val (createElement w (Some T)) \<Longrightarrow>
     update w parent (Some T) (Some T) (Some index) = ok parent"
proof (induction T arbitrary: parent index)
  case (VText s)
  then show ?case by (simp add: update_text_same)
next
  case (VElem ty ps cs)
  obtain ks where k: "val (createElement w (Some (VElem ty ps cs))) = Some (Element ty [] [] ks)"
      "map Some ks = map (\<lambda>c. val (createElement w (Some c))) cs"
      "\<forall>c \<in> set cs. raised (createElement w (Some c)) = None"
    using createElement_plain [OF VElem.prems(1,2)] by (metis res.select_convs(1))
  have E: "childNode parent index = Some (Element ty [] [] ks)" using VElem.prems(3) k by simp
  have p: "parent \<noteq> None" using E by (rule childNode_Some_parent)
  have ps: "ps = []" "ty \<noteq> []" using VElem.prems(1) by simp_all
  have kids: "\<And>c parent index. c \<in> set cs \<Longrightarrow>
        childNode parent index = val (createElement w (Some c)) \<Longrightarrow>
        update w parent (Some c) (Some c) (Some index) = ok parent"
    using VElem.IH VElem.prems(1) k(3) by (simp add: list_all_iff)
  have "update_loop w parent index (take (length cs) cs) cs 0 =
      update_loop w parent index (take (length cs) cs) cs (length cs)"
    by (rule update_loop_same_plain [OF kids E k(2)]) simp_all
  then have loop: "update_loop w parent index cs cs 0 = ok parent"
    by (simp add: update_loop_done)
  show ?case using p ps loop
    by (simp add: update_elem_same updateProps_empty Let_def)
qed

subsection \<open>The loop once the new children are exhausted\<close>

lemma within_did [simp]: "within parent index (did a c) = did a (putChild parent index c)"
  by (simp add: within_def did_def)

lemma within_throw [simp]: "within parent index (throw e c) = throw e (putChild parent index c)"
  by (simp add: within_def throw_def)

lemma update_loop_past_end:
  assumes E: "childNode parent index = Some (Element t as ls ks)"
    and "length ks \<le> i" "length news \<le> i" "i < length olds" "truthy_node (item olds i)"
  shows "update_loop w parent index news olds i =
           \<lparr>val = parent, ops = [], calls = [], raised = Some TypeError\<rparr>"
proof -
  have p: "parent \<noteq> None" using E by (rule childNode_Some_parent)
  have n: "item news i = None" using assms(3) by (simp add: item_def)
  have u: "update w (childNode parent index) (item news i) (item olds i) (Some i) =
      throw TypeError (childNode parent index)"
    using assms(2,5) by (simp add: n E update_absent_new)
  have "putChild parent index (childNode parent index) = parent" by simp
  then show ?thesis using p assms(4)
    by (subst update_loop_step) (simp_all add: u andThen_def throw_def)
qed

lemma update_loop_removals:
  assumes "childNode parent index = Some (Element t as ls (A @ B))"
    and "length A = i" "length news \<le> i" "i + length B \<le> length olds"
    and "\<forall>j. i \<le> j \<and> j < length olds \<longrightarrow> truthy_node (item olds j)"
  shows "update_loop w parent index news olds i =
           \<lparr>val = putChild parent index (Some (Element t as ls (A @ odd_positions B))),
            ops = map RemoveChild [i ..< i + (length B + 1) div 2], calls = [],
            raised = (if i + (length B + 1) div 2 < length olds then Some TypeError else None)\<rparr>"
  using assms
proof (induction B arbitrary: A i parent rule: odd_positions.induct)
  case 1
  show ?case
  proof (cases "i < length olds")
    case True
    have "update_loop w parent index news olds i =
        \<lparr>val = parent, ops = [], calls = [], raised = Some TypeError\<rparr>"
      using 1 True by (intro update_loop_past_end [where ks = A]) auto
    moreover have "putChild parent index (Some (Element t as ls A)) = parent"
      using 1(1) putChild_childNode [of parent index] by simp
    ultimately show ?thesis using True by simp
  next
    case False
    moreover have "putChild parent index (Some (Element t as ls A)) = parent"
      using 1(1) putChild_childNode [of parent index] by simp
    ultimately show ?thesis using 1 by (simp add: update_loop_done ok_def)
  qed
next
  case (2 x)
  have p: "parent \<noteq> None" using 2(1) by (rule childNode_Some_parent)
  have i: "i < length olds" using 2 by simp
  have n: "item news i = None" using 2 by (simp add: item_def)
  have tr: "truthy_node (item olds i)" using 2(5) i by simp
  let ?q = "putChild parent index (Some (Element t as ls A))"
  have u: "update w (childNode parent index) (item news i) (item olds i) (Some i) =
      did (RemoveChild i) (Some (Element t as ls A))"
    using 2(1,2) tr by (simp add: n update_absent_new)
  have q: "childNode ?q index = Some (Element t as ls A)"
    using 2(1) by (intro childNode_putChild [where F = "\<lambda>x. ()"]) simp
  have rest: "update_loop w ?q index news olds (Suc i) =
      (if Suc i < length olds then \<lparr>val = ?q, ops = [], calls = [], raised = Some TypeError\<rparr>
       else ok ?q)"
  proof (cases "Suc i < length olds")
    case True
    then show ?thesis using 2 q
      by (simp add: update_loop_past_end [where ks = A and t = t and as = as and ls = ls])
  next
    case False
    then show ?thesis using 2 by (simp add: update_loop_done)
  qed
  have "update_loop w parent index news olds i =
      andThen (did (RemoveChild i) ?q) ?q (\<lambda>parent. update_loop w parent index news olds (Suc i))"
    using p i by (subst update_loop_step) (simp_all add: u)
  then show ?case unfolding andThen_did rest by (simp add: ok_def)
next
  case (3 x y zs)
  have p: "parent \<noteq> None" using 3(2) by (rule childNode_Some_parent)
  have i: "i < length olds" using 3 by simp
  have n: "item news i = None" using 3 by (simp add: item_def)
  have tr: "truthy_node (item olds i)" using 3(6) i by simp
  let ?e = "Element t as ls (A @ y # zs)"
  let ?q = "putChild parent index (Some ?e)"
  let ?k = "(length zs + 1) div 2"
  have u: "update w (childNode parent index) (item news i) (item olds i) (Some i) =
      did (RemoveChild i) (Some ?e)"
    using 3(2,3) tr by (simp add: n update_absent_new)
  have q: "childNode ?q index = Some (Element t as ls ((A @ [y]) @ zs))"
    using 3(2) by (simp add: childNode_putChild [where F = "\<lambda>x. ()"])
  have "update_loop w ?q index news olds (Suc i) =
      \<lparr>val = putChild ?q index (Some (Element t as ls ((A @ [y]) @ odd_positions zs))),
       ops = map RemoveChild [Suc i ..< Suc i + ?k], calls = [],
       raised = (if Suc i + ?k < length olds then Some TypeError else None)\<rparr>"
    using 3 by (intro "3.IH" q) auto
  then have rest: "update_loop w ?q index news olds (Suc i) =
      \<lparr>val = putChild parent index (Some (Element t as ls (A @ odd_positions (x # y # zs)))),
       ops = map RemoveChild [Suc i ..< Suc i + ?k], calls = [],
       raised = (if Suc i + ?k < length olds then Some TypeError else None)\<rparr>"
    by simp
  have k: "(length (x # y # zs) + 1) div 2 = Suc ?k" by simp
  have idx: "[i ..< i + Suc ?k] = i # [Suc i ..< Suc i + ?k]"
    by (simp add: upt_conv_Cons)
  have lt: "(i + Suc ?k < length olds) = (Suc i + ?k < length olds)" by simp
  have "update_loop w parent index news olds i =
      andThen (did (RemoveChild i) ?q) ?q (\<lambda>parent. update_loop w parent index news olds (Suc i))"
    using p i by (subst update_loop_step) (simp_all add: u)
  also have "\<dots> = \<lparr>val = putChild parent index (Some (Element t as ls (A @ odd_positions (x # y # zs)))),
       ops = RemoveChild i # map RemoveChild [Suc i ..< Suc i + ?k], calls = [],
       raised = (if Suc i + ?k < length olds then Some TypeError else None)\<rparr>"
    unfolding andThen_did rest by simp
  finally show ?case unfolding k idx lt by simp
qed

lemma odd_positions_nonempty: "2 \<le> length xs \<Longrightarrow> odd_positions xs \<noteq> []"
  by (cases xs rule: odd_positions.cases) auto

subsection \<open>What a call does to the store\<close>

lemma keeps_refl [simp]: "keeps s s"
  by (simp add: keeps_def)

lemma keeps_trans: "keeps s s1 \<Longrightarrow> keeps s1 s2 \<Longrightarrow> keeps s s2"
  by (auto simp: keeps_def)

lemma keeps_length: "keeps s s' \<Longrightarrow> length (propss s) \<le> length (propss s')"
  by (auto simp: keeps_def prefix_def)

lemma keeps_alloc_props: "keeps s0 s \<Longrightarrow> keeps s0 (snd (alloc_props s ps))"
  by (auto simp: keeps_def alloc_props_def prefix_def)

lemma alloc_props_fresh: "fst (alloc_props s ps) = length (propss s)"
  "length (propss (snd (alloc_props s ps))) = Suc (length (propss s))"
  by (simp_all add: alloc_props_def)

lemma keeps_write_props:
  "keeps s0 s \<Longrightarrow> length (propss s0) \<le> a \<Longrightarrow> keeps s0 (write_props s a ps)"
  by (auto simp: keeps_def write_props_def prefix_def list_update_append)

lemma keeps_Object_assign:
  "Object_assign_st s tgt srcs = Some s' \<Longrightarrow> keeps s0 s \<Longrightarrow> length (propss s0) \<le> tgt \<Longrightarrow>
     keeps s0 s'"
  by (auto simp: Object_assign_st_def keeps_write_props split: option.splits)

lemma fst_done_st [simp]: "fst (done_st s r) = s" "snd (done_st s r) = Some r"
  by (simp_all add: done_st_def)

lemma keeps_updateProps:
  assumes "keeps s0 s"
  shows "keeps s0 (fst (updateProps_st w s target newProps oldProps))"
proof -
  obtain op s1 where o: "(case oldProps of None \<Rightarrow> alloc_props s [] | Some p \<Rightarrow> (p, s)) = (op, s1)"
    by (cases "case oldProps of None \<Rightarrow> alloc_props s [] | Some p \<Rightarrow> (p, s)")
  have k1: "keeps s0 s1" "length (propss s) \<le> length (propss s1)"
    using o assms keeps_alloc_props [OF assms, of "[]"]
    by (auto split: option.splits simp: alloc_props_def)
  obtain a s2 where a: "alloc_props s1 [] = (a, s2)" by (cases "alloc_props s1 []")
  have k2: "keeps s0 s2" using keeps_alloc_props [OF k1(1), of "[]"] a by simp
  have fresh: "length (propss s0) \<le> a"
    using a alloc_props_fresh(1) [of s1 "[]"] k1 keeps_length [OF assms] by simp
  show ?thesis
    using k2 fresh keeps_Object_assign [of s2 a "[newProps, op]" _ s0]
    by (auto simp: updateProps_st_def o a split: option.splits)
qed

lemma keeps_bind:
  assumes "keeps s0 (fst m)" and "\<And>s1 v. keeps s0 s1 \<Longrightarrow> keeps s0 (fst (f s1 v))"
  shows "keeps s0 (fst (bind_st m x f))"
proof (cases m)
  case (Pair s r)
  show ?thesis
  proof (cases r)
    case None
    then show ?thesis using assms(1) Pair by (simp add: bind_st_def)
  next
    case (Some r')
    show ?thesis
    proof (cases "raised r'")
      case None
      have "keeps s0 (fst (f s (val r')))" using assms Pair by simp
      then show ?thesis using Pair Some None
        by (cases "f s (val r')") (auto simp: bind_st_def split: option.splits)
    next
      case (Some e)
      then show ?thesis using assms(1) Pair \<open>r = Some r'\<close> by (simp add: bind_st_def)
    qed
  qed
qed

lemma keeps_within [simp]: "fst (within_st parent index m) = fst m"
  by (simp add: within_st_def)

lemma keeps_collect:
  assumes "\<And>s1 c. keeps s0 s1 \<Longrightarrow> keeps s0 (fst (f s1 c))"
  shows "keeps s0 s \<Longrightarrow> keeps s0 (fst (collect_st f s cs))"
proof (induction cs arbitrary: s)
  case Nil
  then show ?case by simp
next
  case (Cons c cs)
  show ?case
    by (simp, intro keeps_bind assms Cons) simp_all
qed

lemma keeps_createElement:
  "keeps s0 s \<Longrightarrow> keeps s0 (fst (createElement_st fuel w s node))"
proof (induction fuel arbitrary: s node)
  case 0
  then show ?case by simp
next
  case (Suc fuel)
  show ?case
  proof (cases node)
    case Undefined
    then show ?thesis using Suc.prems by simp
  next
    case (Str x)
    then show ?thesis using Suc.prems by simp
  next
    case (Ref a)
    show ?thesis
    proof (cases "read_vnode s node")
      case None
      then show ?thesis using Ref Suc.prems by simp
    next
      case (Some ob)
      have sp: "\<And>s t p. fst (setProps_st w s t p) = s"
        by (simp add: setProps_st_def split: option.splits)
      have ae: "\<And>s t p. fst (addEventListeners_st w s t p) = s"
        by (simp add: addEventListeners_st_def split: option.splits)
      show ?thesis using Ref Some Suc.prems
        by (simp, intro keeps_bind keeps_collect Suc.IH) (simp_all add: sp ae)
    qed
  qed
qed

declare update_loop_st.simps [simp del]

lemma keeps_update_loop:
  assumes "\<And>w1 s1 p new old j. keeps s0 s1 \<Longrightarrow> keeps s0 (fst (upd w1 s1 p new old j))"
  shows "keeps s0 s \<Longrightarrow>
     keeps s0 (fst (update_loop_st upd w s parent index newNode oldNode nl ol i))"
proof (induction "max nl ol - i" arbitrary: i s parent w)
  case 0
  then show ?case by (subst update_loop_st.simps) simp
next
  case (Suc k)
  have nxt: "\<And>w1 s1 p. keeps s0 s1 \<Longrightarrow>
      keeps s0 (fst (update_loop_st upd w1 s1 p index newNode oldNode nl ol (Suc i)))"
    by (rule Suc.hyps(1)) (use Suc.hyps(2) in simp_all)
  have i: "i < nl \<or> i < ol" using Suc.hyps(2) by auto
  show ?case
  proof (cases "parent = None \<or> child_st s newNode i = None \<or> child_st s oldNode i = None")
    case True
    then show ?thesis using Suc.prems i
      by (subst update_loop_st.simps) (auto split: option.splits)
  next
    case False
    then obtain new old where c: "child_st s newNode i = Some new" "child_st s oldNode i = Some old"
      "parent \<noteq> None" by auto
    let ?m = "within_st parent index (upd w s (childNode parent index) new old (Some i))"
    have eq: "update_loop_st upd w s parent index newNode oldNode nl ol i =
        bind_st ?m (\<lambda>parent. parent)
          (\<lambda>s parent. update_loop_st upd (after_st w ?m) s parent index newNode oldNode nl ol
             (Suc i))"
      using i c by (subst update_loop_st.simps) (auto simp: Let_def)
    show ?thesis unfolding eq
      by (rule keeps_bind) (simp_all add: assms Suc.prems nxt)
  qed
qed

lemma keeps_update:
  "keeps s0 s \<Longrightarrow> keeps s0 (fst (update_st fuel w s parent newNode oldNode index))"
proof (induction fuel arbitrary: w s parent newNode oldNode index)
  case 0
  then show ?case by simp
next
  case (Suc fuel)
  have loop: "\<And>w1 s1 p i new old nl ol k. keeps s0 s1 \<Longrightarrow>
      keeps s0 (fst (update_loop_st (update_st fuel) w1 s1 p i new old nl ol k))"
    by (rule keeps_update_loop) (rule Suc.IH)
  define idx where "idx = (case index of None \<Rightarrow> 0 | Some i \<Rightarrow> i)"
  have create: "\<And>f. keeps s0 (fst (bind_st (createElement_st (Suc fuel) w s newNode) (\<lambda>n. parent)
      (\<lambda>s n. done_st s (f n))))"
    by (rule keeps_bind) (simp_all add: keeps_createElement [OF Suc.prems] del: createElement_st.simps)
  consider (absent_old) "\<not> truthy_jsnode oldNode"
    | (absent_new) "truthy_jsnode oldNode" "\<not> truthy_jsnode newNode"
    | (changed) "truthy_jsnode oldNode" "truthy_jsnode newNode" "changed_st s newNode oldNode"
    | (same) "truthy_jsnode oldNode" "truthy_jsnode newNode" "\<not> changed_st s newNode oldNode"
    by blast
  then show ?case
  proof cases
    case absent_old
    then show ?thesis using create Suc.prems
      by (simp add: Let_def del: createElement_st.simps)
  next
    case absent_new
    then show ?thesis using Suc.prems by (simp add: Let_def)
  next
    case changed
    then show ?thesis using create Suc.prems
      by (simp add: Let_def del: createElement_st.simps)
  next
    case same
    show ?thesis
    proof (cases "\<exists>ty new. type_field s newNode = Some ty \<and> ty \<noteq> [] \<and> parent \<noteq> None \<and>
        read_vnode s newNode = Some new")
      case False
      then show ?thesis using same Suc.prems
        by (auto simp: Let_def split: option.splits)
    next
      case True
      then obtain ty new where t: "type_field s newNode = Some ty" "ty \<noteq> []" "parent \<noteq> None"
        "read_vnode s newNode = Some new" by blast
      let ?m = "within_st parent idx
               (updateProps_st w s (childNode parent idx) (oprops new)
                  (map_option oprops (read_vnode s oldNode)))"
      have eq: "update_st (Suc fuel) w s parent newNode oldNode index =
          bind_st ?m (\<lambda>parent. parent)
            (\<lambda>s parent.
               case (read_vnode s newNode, read_vnode s oldNode) of
                 (Some new, Some old) \<Rightarrow>
                   update_loop_st (update_st fuel) (after_st w ?m) s parent idx newNode oldNode
                     (length (ochildren new)) (length (ochildren old)) 0
               | _ \<Rightarrow> done_st s (throw TypeError parent))"
        using same t unfolding idx_def by (auto simp: Let_def)
      show ?thesis unfolding eq
        by (rule keeps_bind) (auto simp: keeps_updateProps Suc.prems loop split: option.splits)
    qed
  qed
qed

subsection \<open>The two readings agree\<close>

lemma read_props_keeps:
  "keeps s s' \<Longrightarrow> read_props s a = Some ps \<Longrightarrow> read_props s' a = Some ps"
  by (auto simp: keeps_def prefix_def read_props_def item_def nth_append split: if_splits)

lemma holds_keeps: "keeps s s' \<Longrightarrow> holds s n T \<Longrightarrow> holds s' n T"
proof (induction s n T rule: holds.induct)
  case (1 s x y)
  then show ?case by simp
next
  case (2 s a t ps cs)
  from "2.prems" obtain ob where ob: "item (vnodes s) a = Some ob" "otype ob = t"
    "read_props s (oprops ob) = Some ps" "list_all2 (holds s) (ochildren ob) cs"
    by (auto split: option.splits)
  have v: "item (vnodes s') a = Some ob" using ob(1) "2.prems"(1) by (simp add: keeps_def)
  have "list_all2 (holds s') (ochildren ob) cs"
    using ob(4)
  proof (rule list.rel_mono_strong)
    fix c C assume "c \<in> set (ochildren ob)" "C \<in> set cs" "holds s c C"
    then show "holds s' c C" using "2.IH" [OF ob(1)] "2.prems"(1) by simp
  qed
  then show ?case using v ob read_props_keeps [OF "2.prems"(1) ob(3)] by simp
qed simp_all

lemma depth_child: "c \<in> set cs \<Longrightarrow> depth c \<le> foldr max (map depth cs) 0"
  by (induction cs) auto

lemma bind_st_done:
  assumes "raised r = None \<Longrightarrow> f s (val r) = (s', Some (g (val r)))"
  shows "bind_st (s, Some r) x f =
           ((if raised r = None then s' else s), Some (andThen r (x (val r)) g))"
proof (cases "raised r")
  case None
  then show ?thesis using assms by (simp add: bind_st_def andThen_def Let_def)
next
  case (Some e)
  then show ?thesis by (simp add: bind_st_def andThen_def)
qed

lemma collect_st_agrees:
  assumes "list_all2 (\<lambda>c T. f s c = (s, Some (g T))) kids cs"
  shows "collect_st f s kids = (s, Some (collect (map g cs)))"
  using assms
proof (induction kids cs rule: list_all2_induct)
  case Nil
  then show ?case by (simp add: done_st_def)
next
  case (Cons c kids T cs)
  have inner: "\<And>x. bind_st (collect_st f s kids) (\<lambda>xs. []) (\<lambda>s xs. done_st s (ok (x # xs))) =
      (s, Some (andThen (collect (map g cs)) [] (\<lambda>xs. ok (x # xs))))"
    unfolding Cons.IH by (subst bind_st_done [where s' = s and g = "\<lambda>xs. ok (_ # xs)"])
      (simp_all add: done_st_def)
  show ?case
    unfolding collect_st.simps Cons.hyps(1)
    by (subst bind_st_done [where s' = s
          and g = "\<lambda>x. andThen (collect (map g cs)) [] (\<lambda>xs. ok (x # xs))"])
       (simp_all add: inner)
qed

lemma createElement_st_agrees:
  "holds_opt s n N \<Longrightarrow> odepth N < fuel \<Longrightarrow>
     createElement_st fuel w s n = (s, Some (createElement w N))"
proof (induction fuel arbitrary: n N)
  case 0
  then show ?case by simp
next
  case (Suc fuel)
  show ?case
  proof (cases N)
    case None
    then show ?thesis using Suc.prems by (simp add: done_st_def)
  next
    case (Some T)
    show ?thesis
    proof (cases T)
      case (VText x)
      then show ?thesis using Suc.prems Some by (cases n) (simp_all add: done_st_def)
    next
      case (VElem t ps cs)
      then obtain a ob where n: "n = Ref a" and ob: "item (vnodes s) a = Some ob" "otype ob = t"
        "read_props s (oprops ob) = Some ps" "list_all2 (holds s) (ochildren ob) cs"
        using Suc.prems(1) Some by (cases n) (auto split: option.splits)
      have d: "foldr max (map depth cs) 0 < fuel" using Suc.prems(2) Some VElem by simp
      have kids: "list_all2 (\<lambda>c T. createElement_st fuel w s c = (s, Some (createElement w (Some T))))
          (ochildren ob) cs"
        using ob(4)
      proof (rule list.rel_mono_strong)
        fix c C assume "c \<in> set (ochildren ob)" "C \<in> set cs" "holds s c C"
        then show "createElement_st fuel w s c = (s, Some (createElement w (Some C)))"
          using Suc.IH [of c "Some C"] depth_child [of C cs] d by simp
      qed
      have col: "collect_st (createElement_st fuel w) s (ochildren ob) =
          (s, Some (collect (map (\<lambda>c. createElement w (Some c)) cs)))"
        using kids by (rule collect_st_agrees)
      let ?g3 = "\<lambda>el created. forEach w created (\<lambda>w c e. appendChild e c) el"
      let ?g2 = "\<lambda>el. andThen (collect (map (\<lambda>c. createElement w (Some c)) cs)) None (?g3 el)"
      let ?g1 = "\<lambda>el. andThen (addEventListeners w el ps) None ?g2"
      let ?g0 = "\<lambda>el. andThen (setProps w el ps) None ?g1"
      have s3: "bind_st (collect_st (createElement_st fuel w) s (ochildren ob)) (\<lambda>xs. None)
          (\<lambda>s created. done_st s (?g3 el created)) = (s, Some (?g2 el))" for el
        unfolding col by (subst bind_st_done [where s' = s and g = "?g3 el"])
          (simp_all add: done_st_def)
      have s2: "bind_st (addEventListeners_st w s el (oprops ob)) (\<lambda>el. None)
          (\<lambda>s el. bind_st (collect_st (createElement_st fuel w) s (ochildren ob)) (\<lambda>xs. None)
             (\<lambda>s created. done_st s (?g3 el created))) = (s, Some (?g1 el))" for el
        unfolding addEventListeners_st_def ob(3) done_st_def option.case
        by (subst bind_st_done [where s' = s and g = ?g2])
          (simp_all add: s3 [unfolded done_st_def])
      have s1: "bind_st (setProps_st w s el (oprops ob)) (\<lambda>el. None)
          (\<lambda>s el. bind_st (addEventListeners_st w s el (oprops ob)) (\<lambda>el. None)
          (\<lambda>s el. bind_st (collect_st (createElement_st fuel w) s (ochildren ob)) (\<lambda>xs. None)
             (\<lambda>s created. done_st s (?g3 el created)))) = (s, Some (?g0 el))" for el
        unfolding setProps_st_def ob(3) done_st_def option.case
        by (subst bind_st_done [where s' = s and g = ?g1])
          (simp_all add: s2 [unfolded done_st_def])
      have s0: "bind_st (done_st s (document_createElement w t)) (\<lambda>el. None)
          (\<lambda>s el. bind_st (setProps_st w s el (oprops ob)) (\<lambda>el. None)
          (\<lambda>s el. bind_st (addEventListeners_st w s el (oprops ob)) (\<lambda>el. None)
          (\<lambda>s el. bind_st (collect_st (createElement_st fuel w) s (ochildren ob)) (\<lambda>xs. None)
             (\<lambda>s created. done_st s (?g3 el created))))) =
          (s, Some (andThen (document_createElement w t) None ?g0))"
        unfolding done_st_def
        by (subst bind_st_done [where s' = s and g = ?g0])
          (simp_all add: s1 [unfolded done_st_def])
      have v: "createElement w (Some (VElem t ps cs)) =
          andThen (document_createElement w t) None ?g0"
        by (rule createElement.simps(3))
      have "createElement_st (Suc fuel) w s (Ref a) =
          bind_st (done_st s (document_createElement w t)) (\<lambda>el. None)
          (\<lambda>s el. bind_st (setProps_st w s el (oprops ob)) (\<lambda>el. None)
          (\<lambda>s el. bind_st (addEventListeners_st w s el (oprops ob)) (\<lambda>el. None)
          (\<lambda>s el. bind_st (collect_st (createElement_st fuel w) s (ochildren ob)) (\<lambda>xs. None)
             (\<lambda>s created. done_st s (?g3 el created)))))"
        using ob(1,2) by simp
      then show ?thesis unfolding n Some VElem s0 v .
    qed
  qed
qed

lemma updateProps_st_agrees:
  assumes "read_props s np = Some ps" and "read_props s op = Some ps'"
  shows "snd (updateProps_st w s target np (Some op)) = Some (updateProps w target ps (Some ps'))"
proof -
  have lt: "np < length (propss s)" "op < length (propss s)"
    "propss s ! np = ps" "propss s ! op = ps'"
    using assms by (auto simp: read_props_def item_def split: if_splits)
  show ?thesis
    using lt
    by (simp add: updateProps_st_def alloc_props_def Object_assign_st_def read_props_def
        item_def write_props_def nth_append updateProps_def Let_def done_st_def)
qed

lemma holds_truthy: "holds_opt s n N \<Longrightarrow> truthy_jsnode n = truthy_node N"
proof (cases N)
  case None
  then show "holds_opt s n N \<Longrightarrow> truthy_jsnode n = truthy_node N" by simp
next
  case (Some T)
  then show "holds_opt s n N \<Longrightarrow> truthy_jsnode n = truthy_node N"
    by (cases "(s, n, T)" rule: holds.cases) auto
qed

lemma holds_Elem:
  "holds s n (VElem t ps cs) \<Longrightarrow>
     \<exists>a ob. n = Ref a \<and> read_vnode s n = Some ob \<and> otype ob = t \<and>
       read_props s (oprops ob) = Some ps \<and> list_all2 (holds s) (ochildren ob) cs"
  by (cases n) (auto split: option.splits)

lemma holds_changed: "holds s n new \<Longrightarrow> holds s o' old \<Longrightarrow> changed_st s n o' = changed new old"
  by (cases "(s, n, new)" rule: holds.cases; cases "(s, o', old)" rule: holds.cases)
     (auto simp: changed_st_def changed_def type_field_def split: option.splits)

lemma holds_child:
  assumes "read_vnode s n = Some ob" and "list_all2 (holds s) (ochildren ob) cs"
  shows "\<exists>c. child_st s n i = Some c \<and> holds_opt s c (item cs i)"
proof -
  have len: "length (ochildren ob) = length cs" using assms(2) by (rule list_all2_lengthD)
  show ?thesis
  proof (cases "i < length cs")
    case True
    then have "holds s (ochildren ob ! i) (cs ! i)" using assms(2) by (simp add: list_all2_nthD2)
    then show ?thesis using True len assms(1) by (simp add: child_st_def item_def)
  next
    case False
    then show ?thesis using len assms(1) by (simp add: child_st_def item_def)
  qed
qed

lemma odepth_item: "foldr max (map depth cs) 0 < f \<Longrightarrow> odepth (item cs i) < f"
  using depth_child [of "cs ! i" cs] by (auto simp: item_def)

lemma read_vnode_keeps: "keeps s s' \<Longrightarrow> read_vnode s' n = read_vnode s n"
  by (cases n) (simp_all add: keeps_def)

lemma update_loop_st_agrees:
  assumes upd: "\<And>w1 s1 p n New o' Old j. holds_opt s1 n New \<Longrightarrow> holds_opt s1 o' Old \<Longrightarrow>
        odepth New < f \<Longrightarrow> odepth Old < f \<Longrightarrow>
        \<exists>s2. upd w1 s1 p n o' j = (s2, Some (update w1 p New Old j)) \<and> keeps s1 s2"
    and d: "foldr max (map depth news) 0 < f" "foldr max (map depth olds) 0 < f"
  shows "read_vnode s newNode = Some obn \<Longrightarrow> list_all2 (holds s) (ochildren obn) news \<Longrightarrow>
     read_vnode s oldNode = Some obo \<Longrightarrow> list_all2 (holds s) (ochildren obo) olds \<Longrightarrow>
     \<exists>s'. update_loop_st upd w s parent index newNode oldNode (length news) (length olds) i =
            (s', Some (update_loop w parent index news olds i)) \<and> keeps s s'"
proof (induction "max (length news) (length olds) - i" arbitrary: i s parent w)
  case 0
  then show ?case
    by (subst update_loop_st.simps) (auto simp: update_loop_done done_st_def)
next
  case (Suc k)
  have i: "i < length news \<or> i < length olds" using Suc.hyps(2) by auto
  show ?case
  proof (cases parent)
    case None
    then show ?thesis using i
      by (subst update_loop_st.simps) (auto simp: update_loop_undefined done_st_def)
  next
    case (Some p)
    obtain n where n: "child_st s newNode i = Some n" "holds_opt s n (item news i)"
      using holds_child [OF Suc.prems(1,2)] by blast
    obtain o' where o': "child_st s oldNode i = Some o'" "holds_opt s o' (item olds i)"
      using holds_child [OF Suc.prems(3,4)] by blast
    let ?r = "update w (childNode parent index) (item news i) (item olds i) (Some i)"
    obtain s1 where s1: "upd w s (childNode parent index) n o' (Some i) = (s1, Some ?r)" "keeps s s1"
      using upd [OF n(2) o'(2) odepth_item [OF d(1)] odepth_item [OF d(2)]] by blast
    have h1: "read_vnode s1 newNode = Some obn" "list_all2 (holds s1) (ochildren obn) news"
      "read_vnode s1 oldNode = Some obo" "list_all2 (holds s1) (ochildren obo) olds"
      using Suc.prems s1(2)
      by (auto simp: read_vnode_keeps elim!: list_all2_mono intro: holds_keeps)
    obtain s2 where s2: "update_loop_st upd (after w ?r) s1 (val (within parent index ?r)) index
          newNode oldNode (length news) (length olds) (Suc i) =
        (s2, Some (update_loop (after w ?r) (val (within parent index ?r)) index news olds (Suc i)))"
        "keeps s1 s2"
    proof -
      have "k = max (length news) (length olds) - Suc i" using Suc.hyps(2) by simp
      from Suc.hyps(1) [OF this h1]
      show ?thesis using that by blast
    qed
    have m: "within_st parent index (upd w s (childNode parent index) n o' (Some i)) =
        (s1, Some (within parent index ?r))"
      using s1(1) by (simp add: within_st_def)
    have a: "after_st w (s1, Some (within parent index ?r)) = after w ?r"
      by (simp add: after_st_def)
    have eq: "update_loop_st upd w s parent index newNode oldNode (length news) (length olds) i =
        bind_st (s1, Some (within parent index ?r)) (\<lambda>parent. parent)
          (\<lambda>s parent. update_loop_st upd (after w ?r) s parent index newNode oldNode
             (length news) (length olds) (Suc i))"
    proof -
      have pn: "parent \<noteq> None" using Some by simp
      have "update_loop_st upd w s parent index newNode oldNode (length news) (length olds) i =
          (let m = within_st parent index (upd w s (childNode parent index) n o' (Some i))
           in bind_st m (\<lambda>parent. parent)
                (\<lambda>s parent. update_loop_st upd (after_st w m) s parent index newNode oldNode
                   (length news) (length olds) (Suc i)))"
        using i pn n(1) o'(1) by (subst update_loop_st.simps) auto
      then show ?thesis unfolding m Let_def a .
    qed
    have v: "update_loop w parent index news olds i =
        andThen (within parent index ?r) (val (within parent index ?r))
          (\<lambda>parent. update_loop (after w ?r) parent index news olds (Suc i))"
      using i Some by (subst update_loop_step) simp_all
    have "bind_st (s1, Some (within parent index ?r)) (\<lambda>parent. parent)
          (\<lambda>s parent. update_loop_st upd (after w ?r) s parent index newNode oldNode
             (length news) (length olds) (Suc i)) =
        ((if raised (within parent index ?r) = None then s2 else s1),
         Some (andThen (within parent index ?r) (val (within parent index ?r))
          (\<lambda>parent. update_loop (after w ?r) parent index news olds (Suc i))))"
      by (rule bind_st_done) (rule s2(1))
    then show ?thesis unfolding eq v using s1(2) s2(2) keeps_trans by auto
  qed
qed

lemma update_st_default_index:
  "update_st fuel w s parent n o' None = update_st fuel w s parent n o' (Some 0)"
  by (cases fuel) simp_all

lemma update_st_agrees:
  "holds_opt s n New \<Longrightarrow> holds_opt s o' Old \<Longrightarrow> odepth New < fuel \<Longrightarrow> odepth Old < fuel \<Longrightarrow>
     \<exists>s'. update_st fuel w s parent n o' index = (s', Some (update w parent New Old index)) \<and>
          keeps s s'"
proof (induction fuel arbitrary: w s parent n New o' Old index)
  case 0
  then show ?case by simp
next
  case (Suc fuel)
  have main: "\<exists>s'. update_st (Suc fuel) w s parent n o' (Some i) =
      (s', Some (update w parent New Old (Some i))) \<and> keeps s s'" for i
  proof -
    have tn: "truthy_jsnode n = truthy_node New" and to: "truthy_jsnode o' = truthy_node Old"
      using Suc.prems holds_truthy by blast+
    have ce: "createElement_st (Suc fuel) w s n = (s, Some (createElement w New))"
      using Suc.prems(1,3) by (rule createElement_st_agrees)
    have create: "bind_st (createElement_st (Suc fuel) w s n) (\<lambda>n. parent)
        (\<lambda>s c. done_st s (f c)) = (s, Some (andThen (createElement w New) parent f))" for f
      unfolding ce by (subst bind_st_done [where s' = s and g = f]) (simp_all add: done_st_def)
    consider (absent_old) "\<not> truthy_node Old"
      | (absent_new) "truthy_node Old" "\<not> truthy_node New"
      | (both) new old where "New = Some new" "Old = Some old" "truthy_node Old" "truthy_node New"
      by (cases New; cases Old) auto
    then show ?thesis
    proof cases
      case absent_old
      then show ?thesis using to create [of "appendChild parent"]
        by (auto simp: update_absent_old done_st_def simp del: createElement_st.simps)
    next
      case absent_new
      then show ?thesis using to tn
        by (auto simp: update_absent_new done_st_def simp del: createElement_st.simps)
    next
      case both
      have h: "holds s n new" "holds s o' old" using Suc.prems both by simp_all
      have ch: "changed_st s n o' = changed new old" using h by (rule holds_changed)
      show ?thesis
      proof (cases "changed new old")
        case True
        then show ?thesis
          using both to tn ch create [of "\<lambda>c. replaceChild parent c (childAt parent i)"]
          by (auto simp: update_changed done_st_def simp del: createElement_st.simps)
      next
        case unchanged: False
        show ?thesis
        proof (cases "\<exists>t ps cs ps' cs'. new = VElem t ps cs \<and> old = VElem t ps' cs' \<and> t \<noteq> [] \<and>
            parent \<noteq> None")
          case no_patch: False
          have shape: "(\<exists>x. new = VText x \<and> old = VText x \<and> x \<noteq> []) \<or>
              (\<exists>t ps cs ps' cs'. new = VElem t ps cs \<and> old = VElem t ps' cs')"
            using both unchanged by (cases new; cases old) (auto simp: changed_def)
          consider (same_text) x where "new = VText x" "old = VText x" "x \<noteq> []"
            | (empty_tag) ps cs ps' cs' where "new = VElem [] ps cs" "old = VElem [] ps' cs'"
            | (undefined_parent) t ps cs ps' cs' where "new = VElem t ps cs" "old = VElem t ps' cs'"
                "t \<noteq> []" "parent = None"
          proof -
            from shape show ?thesis
            proof (elim disjE exE conjE)
              fix x assume "new = VText x" "old = VText x" "x \<noteq> []"
              then show ?thesis by (rule that(1))
            next
              fix t ps cs ps' cs' assume e: "new = VElem t ps cs" "old = VElem t ps' cs'"
              show ?thesis
              proof (cases "t = []")
                case True
                then show ?thesis using e that(2) by blast
              next
                case False
                then have "parent = None" using no_patch e by blast
                then show ?thesis using e False that(3) by blast
              qed
            qed
          qed
          then have "update_st (Suc fuel) w s parent n o' (Some i) =
              (s, Some (update w parent New Old (Some i)))"
          proof cases
            case same_text
            then show ?thesis using both h ch unchanged to tn
              by (cases n; cases o')
                 (auto simp: update_text_same done_st_def type_field_def)
          next
            case empty_tag
            then show ?thesis using both h ch unchanged to tn
              by (cases n; cases o')
                 (auto simp: update_elem_same done_st_def type_field_def split: option.splits)
          next
            case undefined_parent
            then show ?thesis using both h ch unchanged to tn
              by (cases n; cases o')
                 (auto simp: update_elem_same done_st_def type_field_def split: option.splits)
          qed
          then show ?thesis by auto
        next
          case True
          then obtain t ps cs ps' cs' where e: "new = VElem t ps cs" "old = VElem t ps' cs'"
            "t \<noteq> []" "parent \<noteq> None" by blast
          obtain a obn where obn: "n = Ref a" "read_vnode s n = Some obn" "otype obn = t"
            "read_props s (oprops obn) = Some ps" "list_all2 (holds s) (ochildren obn) cs"
            using holds_Elem h(1) e(1) by blast
          obtain b obo where obo: "o' = Ref b" "read_vnode s o' = Some obo" "otype obo = t"
            "read_props s (oprops obo) = Some ps'" "list_all2 (holds s) (ochildren obo) cs'"
            using holds_Elem h(2) e(2) by blast
          let ?u = "updateProps_st w s (childNode parent i) (oprops obn) (Some (oprops obo))"
          let ?p = "updateProps w (childNode parent i) ps (Some ps')"
          let ?r = "within parent i ?p"
          have u: "snd ?u = Some ?p"
            using obn(4) obo(4) by (rule updateProps_st_agrees)
          have k1: "keeps s (fst ?u)" by (rule keeps_updateProps) simp
          have m: "within_st parent i ?u = (fst ?u, Some ?r)"
            using u by (simp add: within_st_def)
          have a: "after_st w (fst ?u, Some ?r) = after w ?p"
            by (simp add: after_st_def)
          have d: "foldr max (map depth cs) 0 < fuel" "foldr max (map depth cs') 0 < fuel"
            using Suc.prems(3,4) both e by simp_all
          have h1: "read_vnode (fst ?u) n = Some obn" "list_all2 (holds (fst ?u)) (ochildren obn) cs"
            "read_vnode (fst ?u) o' = Some obo" "list_all2 (holds (fst ?u)) (ochildren obo) cs'"
            using obn(2,5) obo(2,5) read_vnode_keeps [OF k1] holds_keeps [OF k1]
            by (auto elim!: list_all2_mono simp del: read_vnode.simps)
          obtain s2 where s2: "update_loop_st (update_st fuel) (after w ?p) (fst ?u) (val ?r) i n o'
                (length cs) (length cs') 0 =
                (s2, Some (update_loop (after w ?p) (val ?r) i cs cs' 0))"
              "keeps (fst ?u) s2"
            using update_loop_st_agrees [where upd = "update_st fuel" and f = fuel
                and news = cs and olds = cs', OF Suc.IH d h1]
            by blast
          have len: "length (ochildren obn) = length cs" "length (ochildren obo) = length cs'"
            using obn(5) obo(5) by (auto dest: list_all2_lengthD)
          have eq: "update_st (Suc fuel) w s parent n o' (Some i) =
              bind_st (fst ?u, Some ?r) (\<lambda>parent. parent)
                (\<lambda>s parent.
                   case (read_vnode s n, read_vnode s o') of
                     (Some new, Some old) \<Rightarrow>
                       update_loop_st (update_st fuel) (after w ?p) s parent i n o'
                         (length (ochildren new)) (length (ochildren old)) 0
                   | _ \<Rightarrow> done_st s (throw TypeError parent))"
          proof -
            have "update_st (Suc fuel) w s parent n o' (Some i) =
                (let m = within_st parent i ?u
                 in bind_st m (\<lambda>parent. parent)
                      (\<lambda>s parent.
                         case (read_vnode s n, read_vnode s o') of
                           (Some new, Some old) \<Rightarrow>
                             update_loop_st (update_st fuel) (after_st w m) s parent i n o'
                               (length (ochildren new)) (length (ochildren old)) 0
                         | _ \<Rightarrow> done_st s (throw TypeError parent)))"
              using both e to tn ch unchanged obn(2,3) obo(2) e(4)
              by (auto simp: type_field_def)
            then show ?thesis unfolding m Let_def a .
          qed
          have v: "update w parent New Old (Some i) =
              andThen ?r (val ?r) (\<lambda>parent. update_loop (after w ?p) parent i cs cs' 0)"
            using both e by (auto simp: update_elem_same Let_def)
          have "bind_st (fst ?u, Some ?r) (\<lambda>parent. parent)
                (\<lambda>s parent.
                   case (read_vnode s n, read_vnode s o') of
                     (Some new, Some old) \<Rightarrow>
                       update_loop_st (update_st fuel) (after w ?p) s parent i n o'
                         (length (ochildren new)) (length (ochildren old)) 0
                   | _ \<Rightarrow> done_st s (throw TypeError parent)) =
              ((if raised ?r = None then s2 else fst ?u),
               Some (andThen ?r (val ?r) (\<lambda>parent. update_loop (after w ?p) parent i cs cs' 0)))"
            by (rule bind_st_done) (use s2(1) in \<open>simp add: h1 len\<close>)
          then show ?thesis unfolding eq v using k1 s2(2) keeps_trans by auto
        qed
      qed
    qed
  qed
  show ?case
  proof (cases index)
    case None
    then show ?thesis using main [of 0]
      by (simp add: update_st_default_index update.simps(1) del: update_st.simps)
  next
    case (Some i)
    then show ?thesis using main [of i] by simp
  qed
qed

subsection \<open>Evaluating the examples\<close>

lemma example_names:
  "ascii_name ''ul''" "ascii_name ''li''" "ascii_name ''p''" "ascii_name ''div''"
  "ascii_name ''span''" "ascii_name ''h2''" "ascii_name ''a''" "ascii_name ''button''"
  "ascii_name ''class''" "ascii_name ''title''" "ascii_name ''id''" "ascii_name ''href''"
  "\<not> ascii_name []"
  "isCustomProp ''onClick''" "isEventProp ''onClick''"
  "\<not> isCustomProp ''className''" "\<not> isEventProp ''className''"
  "\<not> isCustomProp ''title''" "\<not> isEventProp ''title''"
  "\<not> isCustomProp ''id''" "\<not> isEventProp ''id''"
  "\<not> isCustomProp ''href''" "\<not> isEventProp ''href''"
  "extractEventName ''onClick'' = ''click''"
  by code_simp+

lemmas evaluate =
  example_names h_def page_def createElement_unfold createElement.simps(1,2)
  document_createElement_def setProps_def addEventListeners_def setProp_def removeProp_def
  updateProps_def updateProp_def newVal_def entered_def Object_keys_def Object_assign_def get_def
  item_def Let_def ok_def did_def throw_def andThen_def within_def after_def later_def
  update.simps update_loop.simps changed_def

section \<open>The properties the specification states\<close>

text \<open>
  C1. The specification states: \<open>updateProp\<close> removes the property when the new value is falsy and
  otherwise sets it when the old value is absent or differs; old props \<open>{title: "a"}\<close>
  against new props \<open>{title: ""}\<close> leave the target without a title attribute.
  The code does not do this: line 100 tests \<open>newVal\<close>, not \<open>newValue\<close>. In a page that
  binds no \<open>newVal\<close> the call ends with a ReferenceError before any attribute is
  touched: at the stated example, called directly and through \<open>update\<close>, the title
  attribute stays \<open>"a"\<close>; and so does every call, whatever its arguments. In a page
  that binds \<open>newVal\<close> to an object (an element with that \<open>id\<close>, say) the test of line
  100 fails whatever the new value is, and the stated example sets the title to the
  empty string instead of removing it.
\<close>

theorem updateProp_title_example:
  "updateProp (page None) (Some (Element ''div'' [(''title'', JStr ''a'')] [] []))
       ''title'' (JStr '''') (JStr ''a'') =
     \<lparr>val = Some (Element ''div'' [(''title'', JStr ''a'')] [] []), ops = [],
      calls = [(''title'', JStr '''', JStr ''a'')], raised = Some ReferenceError\<rparr>
   \<and> update (page None)
       (Some (Element ''body'' [] [] [Element ''div'' [(''title'', JStr ''a'')] [] []]))
       (Some (h ''div'' (Some [(''title'', JStr '''')]) []))
       (Some (h ''div'' (Some [(''title'', JStr ''a'')]) [])) None =
     \<lparr>val = Some (Element ''body'' [] [] [Element ''div'' [(''title'', JStr ''a'')] [] []]),
      ops = [], calls = [(''title'', JStr '''', JStr ''a'')],
      raised = Some ReferenceError\<rparr>
   \<and> (global_newVal w 0 = None \<longrightarrow>
        updateProp w target name newValue oldValue =
          \<lparr>val = target, ops = [], calls = [(name, newValue, oldValue)],
           raised = Some ReferenceError\<rparr>)
   \<and> updateProp (page (Some (JRef 0))) (Some (Element ''div'' [(''title'', JStr ''a'')] [] []))
       ''title'' (JStr '''') (JStr ''a'') =
     \<lparr>val = Some (Element ''div'' [(''title'', JStr '''')] [] []),
      ops = [SetAttribute ''title'' (JStr '''')],
      calls = [(''title'', JStr '''', JStr ''a'')], raised = None\<rparr>"
proof (intro conjI impI)
  show "updateProp (page None) (Some (Element ''div'' [(''title'', JStr ''a'')] [] []))
       ''title'' (JStr '''') (JStr ''a'') =
     \<lparr>val = Some (Element ''div'' [(''title'', JStr ''a'')] [] []), ops = [],
      calls = [(''title'', JStr '''', JStr ''a'')], raised = Some ReferenceError\<rparr>"
    by (rule updateProp_unbound) (simp add: page_def)
next
  show "update (page None)
       (Some (Element ''body'' [] [] [Element ''div'' [(''title'', JStr ''a'')] [] []]))
       (Some (h ''div'' (Some [(''title'', JStr '''')]) []))
       (Some (h ''div'' (Some [(''title'', JStr ''a'')]) [])) None =
     \<lparr>val = Some (Element ''body'' [] [] [Element ''div'' [(''title'', JStr ''a'')] [] []]),
      ops = [], calls = [(''title'', JStr '''', JStr ''a'')],
      raised = Some ReferenceError\<rparr>"
    by code_simp
next
  assume "global_newVal w 0 = None"
  then show "updateProp w target name newValue oldValue =
      \<lparr>val = target, ops = [], calls = [(name, newValue, oldValue)],
       raised = Some ReferenceError\<rparr>"
    by (rule updateProp_unbound)
next
  show "updateProp (page (Some (JRef 0))) (Some (Element ''div'' [(''title'', JStr ''a'')] [] []))
       ''title'' (JStr '''') (JStr ''a'') =
     \<lparr>val = Some (Element ''div'' [(''title'', JStr '''')] [] []),
      ops = [SetAttribute ''title'' (JStr '''')],
      calls = [(''title'', JStr '''', JStr ''a'')], raised = None\<rparr>"
    by code_simp
qed

theorem updateProp_title_example_witness:
  "global_newVal (page None) 0 = None
   \<and> raised (updateProp (page None) (Some (Element ''div'' [(''title'', JStr ''a'')] [] []))
       ''title'' (JStr '''') (JStr ''a'')) = Some ReferenceError
   \<and> map_option (map attributes \<circ> childNodes) (val
         (update (page None)
            (Some (Element ''body'' [] [] [Element ''div'' [(''title'', JStr ''a'')] [] []]))
            (Some (h ''div'' (Some [(''title'', JStr '''')]) []))
            (Some (h ''div'' (Some [(''title'', JStr ''a'')]) [])) None)) =
       Some [[(''title'', JStr ''a'')]]
   \<and> map_option attributes (val
         (updateProp (page (Some (JRef 0)))
            (Some (Element ''div'' [(''title'', JStr ''a'')] [] []))
            ''title'' (JStr '''') (JStr ''a''))) =
       Some [(''title'', JStr '''')]"
proof -
  have u: "global_newVal (page None) 0 = None" by (simp add: page_def)
  show ?thesis
    using u updateProp_title_example [of "page None"
        "Some (Element ''div'' [(''title'', JStr ''a'')] [] [])" "''title''" "JStr ''''"
        "JStr ''a''"]
    by simp
qed

text \<open>
  C2. The specification states: reconciling \<open>(parent, T, T)\<close> performs no attribute operation and no
  child operation, for every well-formed tree \<open>T\<close>. It fails where \<open>T\<close> holds an empty
  string: line 179 tests \<open>!oldNode\<close>, the empty string is falsy, and the text node is
  appended a second time. Shown for \<open>T = ""\<close> and for \<open>T = h("p", {}, "")\<close>, each
  with the live child that rendering \<open>T\<close> produced, in a page that binds no \<open>newVal\<close>
  (these trees have no properties, so line 100 is never reached). It also fails where
  \<open>T\<close> has a property with a falsy value: for \<open>T = h("div", {title: ""})\<close>, in a page
  that binds \<open>newVal\<close> to an object, the call sets the attribute again (line 102 finds
  the old value falsy); in a page that binds no \<open>newVal\<close> the same call issues no
  operation only because it ends with the ReferenceError of line 100.
\<close>

theorem update_same_empty_text_appends:
  "childNode (Some (Element ''body'' [] [] [Text [] []])) 0 =
       val (createElement (page None) (Some (VText [])))
   \<and> update (page None) (Some (Element ''body'' [] [] [Text [] []]))
         (Some (VText [])) (Some (VText [])) None =
       \<lparr>val = Some (Element ''body'' [] [] [Text [] [], Text [] []]),
        ops = [AppendChild (Text [] [])], calls = [], raised = None\<rparr>
   \<and> childNode (Some (Element ''body'' [] [] [Element ''p'' [] [] [Text [] []]])) 0 =
       val (createElement (page None) (Some (h ''p'' (Some []) [VText []])))
   \<and> update (page None) (Some (Element ''body'' [] [] [Element ''p'' [] [] [Text [] []]]))
       (Some (h ''p'' (Some []) [VText []])) (Some (h ''p'' (Some []) [VText []])) None =
       \<lparr>val = Some (Element ''body'' [] [] [Element ''p'' [] [] [Text [] [], Text [] []]]),
        ops = [AppendChild (Text [] [])], calls = [], raised = None\<rparr>
   \<and> childNode (Some (Element ''body'' [] [] [Element ''div'' [(''title'', JStr [])] [] []])) 0 =
       val (createElement (page (Some (JRef 0))) (Some (h ''div'' (Some [(''title'', JStr [])]) [])))
   \<and> update (page (Some (JRef 0)))
       (Some (Element ''body'' [] [] [Element ''div'' [(''title'', JStr [])] [] []]))
       (Some (h ''div'' (Some [(''title'', JStr [])]) []))
       (Some (h ''div'' (Some [(''title'', JStr [])]) [])) None =
       \<lparr>val = Some (Element ''body'' [] [] [Element ''div'' [(''title'', JStr [])] [] []]),
        ops = [SetAttribute ''title'' (JStr [])], calls = [(''title'', JStr [], JStr [])],
        raised = None\<rparr>
   \<and> update (page None)
       (Some (Element ''body'' [] [] [Element ''div'' [(''title'', JStr [])] [] []]))
       (Some (h ''div'' (Some [(''title'', JStr [])]) []))
       (Some (h ''div'' (Some [(''title'', JStr [])]) [])) None =
       \<lparr>val = Some (Element ''body'' [] [] [Element ''div'' [(''title'', JStr [])] [] []]),
        ops = [], calls = [(''title'', JStr [], JStr [])], raised = Some ReferenceError\<rparr>"
  by (simp add: evaluate strict_eq_def)

text \<open>
  C2, amended. Take a tree \<open>T\<close> in which no text node is the empty string and a live
  parent whose child at \<open>index\<close> is the node that \<open>createElement\<close> returned for \<open>T\<close>, in a
  page where \<open>T\<close> is steady: \<open>T\<close> has no properties, or every evaluation of \<open>newVal\<close>
  finds a value and every property of \<open>T\<close> is a custom one or has, like \<open>newVal\<close>, a
  truthy value. Then reconciling \<open>(parent, T, T)\<close> returns normally, issues no
  attribute operation and no child operation, and leaves the live tree as it was.
\<close>

theorem update_same_tree_no_ops:
  assumes "no_empty_text T" and "steady w T"
    and "raised (createElement w (Some T)) = None"
    and "childNode parent (case index of None \<Rightarrow> 0 | Some i \<Rightarrow> i) = val (createElement w (Some T))"
  shows "ops (update w parent (Some T) (Some T) index) = [] \<and>
         val (update w parent (Some T) (Some T) index) = parent \<and>
         raised (update w parent (Some T) (Some T) index) = None"
proof -
  have "ops (update w parent (Some T) (Some T) (Some i)) = [] \<and>
      val (update w parent (Some T) (Some T) (Some i)) = parent \<and>
      raised (update w parent (Some T) (Some T) (Some i)) = None"
    if "childNode parent i = val (createElement w (Some T))" for i
    using update_same_steady [OF assms(1,2,3) that, of 0] by simp
  then show ?thesis using assms(4) by (cases index) (simp_all add: update.simps(1))
qed

theorem update_same_tree_no_ops_witness:
  "no_empty_text (h ''ul'' (Some [(''className'', JStr ''menu''), (''onClick'', JRef 1)])
       [h ''li'' None [VText ''one''], VText ''two''])
   \<and> steady (page (Some (JRef 0)))
       (h ''ul'' (Some [(''className'', JStr ''menu''), (''onClick'', JRef 1)])
          [h ''li'' None [VText ''one''], VText ''two''])
   \<and> createElement (page (Some (JRef 0)))
       (Some (h ''ul'' (Some [(''className'', JStr ''menu''), (''onClick'', JRef 1)])
          [h ''li'' None [VText ''one''], VText ''two''])) =
       \<lparr>val = Some (Element ''ul'' [(''class'', JStr ''menu'')] [(''click'', JRef 1)]
                [Element ''li'' [] [] [Text ''one'' []], Text ''two'' []]),
        ops = [SetAttribute ''class'' (JStr ''menu''), AddEventListener ''click'' (JRef 1),
               AppendChild (Text ''one'' []),
               AppendChild (Element ''li'' [] [] [Text ''one'' []]),
               AppendChild (Text ''two'' [])],
        calls = [], raised = None\<rparr>
   \<and> ops (update (page (Some (JRef 0))) (Some (Element ''body'' [] []
              [Element ''ul'' [(''class'', JStr ''menu'')] [(''click'', JRef 1)]
                 [Element ''li'' [] [] [Text ''one'' []], Text ''two'' []]]))
         (Some (h ''ul'' (Some [(''className'', JStr ''menu''), (''onClick'', JRef 1)])
            [h ''li'' None [VText ''one''], VText ''two'']))
         (Some (h ''ul'' (Some [(''className'', JStr ''menu''), (''onClick'', JRef 1)])
            [h ''li'' None [VText ''one''], VText ''two''])) None) = []
   \<and> val (update (page (Some (JRef 0))) (Some (Element ''body'' [] []
              [Element ''ul'' [(''class'', JStr ''menu'')] [(''click'', JRef 1)]
                 [Element ''li'' [] [] [Text ''one'' []], Text ''two'' []]]))
         (Some (h ''ul'' (Some [(''className'', JStr ''menu''), (''onClick'', JRef 1)])
            [h ''li'' None [VText ''one''], VText ''two'']))
         (Some (h ''ul'' (Some [(''className'', JStr ''menu''), (''onClick'', JRef 1)])
            [h ''li'' None [VText ''one''], VText ''two''])) None) =
       Some (Element ''body'' [] []
              [Element ''ul'' [(''class'', JStr ''menu'')] [(''click'', JRef 1)]
                 [Element ''li'' [] [] [Text ''one'' []], Text ''two'' []]])
   \<and> raised (update (page (Some (JRef 0))) (Some (Element ''body'' [] []
              [Element ''ul'' [(''class'', JStr ''menu'')] [(''click'', JRef 1)]
                 [Element ''li'' [] [] [Text ''one'' []], Text ''two'' []]]))
         (Some (h ''ul'' (Some [(''className'', JStr ''menu''), (''onClick'', JRef 1)])
            [h ''li'' None [VText ''one''], VText ''two'']))
         (Some (h ''ul'' (Some [(''className'', JStr ''menu''), (''onClick'', JRef 1)])
            [h ''li'' None [VText ''one''], VText ''two''])) None) = None"
proof -
  let ?T = "h ''ul'' (Some [(''className'', JStr ''menu''), (''onClick'', JRef 1)])
       [h ''li'' None [VText ''one''], VText ''two'']"
  let ?w = "page (Some (JRef 0))"
  let ?body = "Some (Element ''body'' [] []
              [Element ''ul'' [(''class'', JStr ''menu'')] [(''click'', JRef 1)]
                 [Element ''li'' [] [] [Text ''one'' []], Text ''two'' []]])"
  have ne: "no_empty_text ?T" by (simp add: h_def)
  have cu: "isCustomProp ''onClick''" by code_simp
  have st: "steady ?w ?T"
    by (simp add: steady_def page_def h_def Object_keys_def get_def leaves_alone_def cu)
  have ce: "createElement ?w (Some ?T) =
       \<lparr>val = Some (Element ''ul'' [(''class'', JStr ''menu'')] [(''click'', JRef 1)]
                [Element ''li'' [] [] [Text ''one'' []], Text ''two'' []]),
        ops = [SetAttribute ''class'' (JStr ''menu''), AddEventListener ''click'' (JRef 1),
               AppendChild (Text ''one'' []),
               AppendChild (Element ''li'' [] [] [Text ''one'' []]),
               AppendChild (Text ''two'' [])],
        calls = [], raised = None\<rparr>"
    by (simp add: evaluate)
  have r: "raised (createElement ?w (Some ?T)) = None" unfolding ce by simp
  have c: "childNode ?body (case None of None \<Rightarrow> 0 | Some i \<Rightarrow> i) = val (createElement ?w (Some ?T))"
    unfolding ce by (simp add: item_def)
  note t = update_same_tree_no_ops [OF ne st r c]
  show ?thesis
    by (intro conjI ne st ce t [THEN conjunct1] t [THEN conjunct2, THEN conjunct1]
        t [THEN conjunct2, THEN conjunct2])
qed

text \<open>
  C3. For every tree \<open>T\<close> that \<open>createElement\<close> materializes without an exception, and
  every live parent element, reconciling \<open>(parent, T, undefined)\<close> returns normally and
  appends, after the children the parent has, exactly the node \<open>createElement(T)\<close>
  returns: on an empty parent that node is the only child. The appended node is the
  materializer's result itself, so tags, attributes, texts and children agree.
  \<open>createElement\<close> materializes every well-formed tree: one whose event properties hold
  functions and whose tags and attribute names the document accepts. When
  \<open>createElement\<close> raises, the exception ends \<open>update\<close> and nothing is appended.
\<close>

theorem update_initial_materialization:
  "(raised (createElement w (Some T)) = None \<longrightarrow>
      (\<exists>n. createElement w (Some T) =
             \<lparr>val = Some n, ops = ops (createElement w (Some T)), calls = [], raised = None\<rparr> \<and>
           update w (Some (Element t as ls cs)) (Some T) None index =
             \<lparr>val = Some (Element t as ls (cs @ [n])),
              ops = ops (createElement w (Some T)) @ [AppendChild n], calls = [],
              raised = None\<rparr>))
   \<and> (invocable_handlers T \<longrightarrow> accepted w T \<longrightarrow> raised (createElement w (Some T)) = None)
   \<and> (raised (createElement w (Some T)) = Some e \<longrightarrow>
        update w (Some (Element t as ls cs)) (Some T) None index =
          \<lparr>val = Some (Element t as ls cs), ops = ops (createElement w (Some T)), calls = [],
           raised = Some e\<rparr>)"
proof (intro conjI impI)
  assume r: "raised (createElement w (Some T)) = None"
  then obtain n where n: "val (createElement w (Some T)) = Some n"
    using createElement_node by blast
  have "update w (Some (Element t as ls cs)) (Some T) None (Some i) =
      \<lparr>val = Some (Element t as ls (cs @ [n])),
       ops = ops (createElement w (Some T)) @ [AppendChild n], calls = [], raised = None\<rparr>" for i
    using r n by (simp add: update_absent_old andThen_def Let_def did_def)
  then have "update w (Some (Element t as ls cs)) (Some T) None index =
      \<lparr>val = Some (Element t as ls (cs @ [n])),
       ops = ops (createElement w (Some T)) @ [AppendChild n], calls = [], raised = None\<rparr>"
    by (cases index) (simp_all add: update.simps(1))
  moreover have "createElement w (Some T) =
      \<lparr>val = Some n, ops = ops (createElement w (Some T)), calls = [], raised = None\<rparr>"
    using r n by (intro res.equality) simp_all
  ultimately show "\<exists>n. createElement w (Some T) =
             \<lparr>val = Some n, ops = ops (createElement w (Some T)), calls = [], raised = None\<rparr> \<and>
           update w (Some (Element t as ls cs)) (Some T) None index =
             \<lparr>val = Some (Element t as ls (cs @ [n])),
              ops = ops (createElement w (Some T)) @ [AppendChild n], calls = [],
              raised = None\<rparr>"
    by blast
next
  assume "invocable_handlers T" "accepted w T"
  then show "raised (createElement w (Some T)) = None" by (rule createElement_returns)
next
  assume r: "raised (createElement w (Some T)) = Some e"
  have "update w (Some (Element t as ls cs)) (Some T) None (Some i) =
      \<lparr>val = Some (Element t as ls cs), ops = ops (createElement w (Some T)), calls = [],
       raised = Some e\<rparr>" for i
    using r by (simp add: update_absent_old andThen_raised)
  then show "update w (Some (Element t as ls cs)) (Some T) None index =
      \<lparr>val = Some (Element t as ls cs), ops = ops (createElement w (Some T)), calls = [],
       raised = Some e\<rparr>"
    by (cases index) (simp_all add: update.simps(1))
qed

theorem update_initial_materialization_witness:
  "invocable_handlers (h ''h2'' (Some [(''className'', JStr ''t''), (''onClick'', JRef 1)])
       [VText ''Hello World!''])
   \<and> accepted (page None) (h ''h2'' (Some [(''className'', JStr ''t''), (''onClick'', JRef 1)])
       [VText ''Hello World!''])
   \<and> createElement (page None)
       (Some (h ''h2'' (Some [(''className'', JStr ''t''), (''onClick'', JRef 1)])
          [VText ''Hello World!''])) =
       \<lparr>val = Some (Element ''h2'' [(''class'', JStr ''t'')] [(''click'', JRef 1)]
                [Text ''Hello World!'' []]),
        ops = [SetAttribute ''class'' (JStr ''t''), AddEventListener ''click'' (JRef 1),
               AppendChild (Text ''Hello World!'' [])],
        calls = [], raised = None\<rparr>
   \<and> val (update (page None) (Some (Element ''body'' [] [] []))
         (Some (h ''h2'' (Some [(''className'', JStr ''t''), (''onClick'', JRef 1)])
            [VText ''Hello World!''])) None None) =
       Some (Element ''body'' [] []
         [Element ''h2'' [(''class'', JStr ''t'')] [(''click'', JRef 1)]
            [Text ''Hello World!'' []]])
   \<and> createElement (page None) (Some (h [] None [])) = throw InvalidCharacterError None
   \<and> update (page None) (Some (Element ''body'' [] [] [])) (Some (h [] None [])) None None =
       \<lparr>val = Some (Element ''body'' [] [] []), ops = [], calls = [],
        raised = Some InvalidCharacterError\<rparr>"
proof -
  let ?T = "h ''h2'' (Some [(''className'', JStr ''t''), (''onClick'', JRef 1)])
       [VText ''Hello World!'']"
  have hh: "invocable_handlers ?T"
    by (simp add: evaluate)
  have ac: "accepted (page None) ?T"
    by (simp add: evaluate)
  have c: "createElement (page None) (Some ?T) =
       \<lparr>val = Some (Element ''h2'' [(''class'', JStr ''t'')] [(''click'', JRef 1)]
                [Text ''Hello World!'' []]),
        ops = [SetAttribute ''class'' (JStr ''t''), AddEventListener ''click'' (JRef 1),
               AppendChild (Text ''Hello World!'' [])],
        calls = [], raised = None\<rparr>"
    by (simp add: evaluate)
  note t = update_initial_materialization [of "page None" ?T "''body''" "[]" "[]" "[]" None]
  have r: "raised (createElement (page None) (Some ?T)) = None"
    using t [THEN conjunct2, THEN conjunct1] hh ac by blast
  obtain n where n: "createElement (page None) (Some ?T) =
        \<lparr>val = Some n, ops = ops (createElement (page None) (Some ?T)), calls = [],
         raised = None\<rparr>"
      "update (page None) (Some (Element ''body'' [] [] [])) (Some ?T) None None =
        \<lparr>val = Some (Element ''body'' [] [] ([] @ [n])),
         ops = ops (createElement (page None) (Some ?T)) @ [AppendChild n], calls = [],
         raised = None\<rparr>"
    using t [THEN conjunct1] r by blast
  have "n = Element ''h2'' [(''class'', JStr ''t'')] [(''click'', JRef 1)]
      [Text ''Hello World!'' []]"
    using n(1) unfolding c by simp
  then have v: "val (update (page None) (Some (Element ''body'' [] [] [])) (Some ?T) None None) =
      Some (Element ''body'' [] []
         [Element ''h2'' [(''class'', JStr ''t'')] [(''click'', JRef 1)]
            [Text ''Hello World!'' []]])"
    using n(2) by simp
  have x: "createElement (page None) (Some (h [] None [])) = throw InvalidCharacterError None"
    by (simp add: evaluate)
  have u: "update (page None) (Some (Element ''body'' [] [] [])) (Some (h [] None [])) None None =
       \<lparr>val = Some (Element ''body'' [] [] []), ops = [], calls = [],
        raised = Some InvalidCharacterError\<rparr>"
    using update_initial_materialization
      [of "page None" "h [] None []" "''body''" "[]" "[]" "[]" None InvalidCharacterError,
        THEN conjunct2, THEN conjunct2]
    unfolding x by simp
  show ?thesis by (intro conjI hh ac c v x u)
qed

text \<open>
  C4. For two nodes that are both present, \<open>changed\<close> holds exactly when one is a
  string and the other is not, or both are strings with different contents, or both
  are elements with different \<open>type\<close>. Two equal strings are not changed, and neither
  are two elements of the same type, whatever their props and children.
\<close>

theorem changed_iff:
  "changed new old =
     (case (new, old) of
        (VText s, VText t) \<Rightarrow> s \<noteq> t
      | (VElem ty ps cs, VElem ty' ps' cs') \<Rightarrow> ty \<noteq> ty'
      | _ \<Rightarrow> True)
   \<and> \<not> changed (VText s) (VText s)
   \<and> \<not> changed (VElem ty ps cs) (VElem ty ps' cs')"
  by (cases new; cases old) (auto simp: changed_def)

theorem changed_iff_witness:
  "changed (VText ''a'') (VElem ''p'' [] [])
   \<and> changed (VText ''a'') (VText ''b'')
   \<and> changed (VElem ''div'' [] []) (VElem ''span'' [] [])
   \<and> \<not> changed (VText ''a'') (VText ''a'')
   \<and> \<not> changed (VElem ''div'' [(''id'', JStr ''x'')] [VText ''a''])
         (VElem ''div'' [(''id'', JStr ''y'')] [])"
  using changed_iff [of "VText ''a''" "VElem ''p'' [] []"]
    changed_iff [of "VText ''a''" "VText ''b''"]
    changed_iff [of "VElem ''div'' [] []" "VElem ''span'' [] []"]
    changed_iff [of _ _ "''a''" "''div''" "[(''id'', JStr ''x'')]" "[VText ''a'']"
      "[(''id'', JStr ''y'')]" "[]"]
  by simp

text \<open>
  C5. The specification states: \<open>updateProps\<close> invokes \<open>updateProp\<close> once for every key of the union
  of the keys of \<open>newProps\<close> and \<open>oldProps\<close>. The loop of lines 116-118 is written to do
  so, but in a page that binds no \<open>newVal\<close> the first invocation raises the
  ReferenceError of line 100 and \<open>forEach\<close> stops there: with the two keys \<open>id\<close> and
  \<open>title\<close> only \<open>id\<close> is passed on. In such a page no call of \<open>updateProps\<close> invokes
  \<open>updateProp\<close> more than once.
\<close>

theorem updateProps_two_keys_example:
  "updateProps (page None) (Some (Element ''div'' [] [] []))
       [(''id'', JStr ''x''), (''title'', JStr ''t'')] (Some []) =
     \<lparr>val = Some (Element ''div'' [] [] []), ops = [],
      calls = [(''id'', JStr ''x'', JUndefined)], raised = Some ReferenceError\<rparr>
   \<and> (global_newVal w 0 = None \<longrightarrow>
        length (calls (updateProps w target newProps oldProps)) \<le> 1)"
proof (intro conjI impI)
  show "updateProps (page None) (Some (Element ''div'' [] [] []))
       [(''id'', JStr ''x''), (''title'', JStr ''t'')] (Some []) =
     \<lparr>val = Some (Element ''div'' [] [] []), ops = [],
      calls = [(''id'', JStr ''x'', JUndefined)], raised = Some ReferenceError\<rparr>"
    by code_simp
next
  assume "global_newVal w 0 = None"
  then show "length (calls (updateProps w target newProps oldProps)) \<le> 1"
    by (simp add: updateProps_unbound split: list.splits)
qed

theorem updateProps_two_keys_example_witness:
  "global_newVal (page None) 0 = None
   \<and> calls (updateProps (page None) (Some (Element ''div'' [] [] []))
       [(''id'', JStr ''x''), (''title'', JStr ''t'')] (Some [])) =
     [(''id'', JStr ''x'', JUndefined)]"
proof -
  have u: "global_newVal (page None) 0 = None" by (simp add: page_def)
  show ?thesis
    using u updateProps_two_keys_example [of "page None"] by simp
qed



text \<open>
  C7. \<open>update\<close> never mutates a virtual node. Over the store of objects: whatever the
  page, the store, the live parent, the two node arguments and the index, and however far the
  call gets, the store after the call holds every \<open>{type, props, children}\<close> object and
  every property object of the store before the call, at its address and with the same
  fields. All the call adds are fresh property objects (the \<open>{}\<close> that \<open>updateProps\<close>
  passes to \<open>Object.assign\<close> as the target): the objects of both input trees, however
  deeply nested, are among those left as they were. Only the live parent, returned in
  the result, changes. The store reading is the one of the value reading: on a store
  holding the two trees, with fuel above their depths, \<open>update_st\<close> returns what
  \<open>update\<close> returns (lemma \<open>update_st_agrees\<close>).
\<close>

theorem update_leaves_vnodes_unchanged:
  "vnodes (fst (update_st fuel w s parent newNode oldNode index)) = vnodes s
   \<and> take (length (propss s)) (propss (fst (update_st fuel w s parent newNode oldNode index))) =
       propss s"
proof -
  have "keeps s (fst (update_st fuel w s parent newNode oldNode index))"
    by (rule keeps_update) simp
  then show ?thesis by (auto simp: keeps_def prefix_def)
qed

theorem update_leaves_vnodes_unchanged_witness:
  "update_st 3 (page None)
     \<lparr>vnodes = [\<lparr>otype = ''li'', oprops = 0, ochildren = [Str ''x'']\<rparr>,
                \<lparr>otype = ''ul'', oprops = 1, ochildren = [Ref 0, Str ''b'', Str ''c'']\<rparr>,
                \<lparr>otype = ''ul'', oprops = 2, ochildren = [Ref 0, Str ''z'']\<rparr>],
      propss = [[], [], []]\<rparr>
     (Some (Element ''body'' [] []
        [Element ''ul'' [] [] [Element ''li'' [] [] [Text ''x'' []], Text ''b'' [], Text ''c'' []]]))
     (Ref 2) (Ref 1) None =
   (\<lparr>vnodes = [\<lparr>otype = ''li'', oprops = 0, ochildren = [Str ''x'']\<rparr>,
                \<lparr>otype = ''ul'', oprops = 1, ochildren = [Ref 0, Str ''b'', Str ''c'']\<rparr>,
                \<lparr>otype = ''ul'', oprops = 2, ochildren = [Ref 0, Str ''z'']\<rparr>],
      propss = [[], [], [], [], []]\<rparr>,
    Some \<lparr>val = Some (Element ''body'' [] []
             [Element ''ul'' [] [] [Element ''li'' [] [] [Text ''x'' []], Text ''z'' []]]),
          ops = [ReplaceChild (Text ''z'' []) 1, RemoveChild 2], calls = [], raised = None\<rparr>)
   \<and> take 3 (propss (fst (update_st 3 (page None)
     \<lparr>vnodes = [\<lparr>otype = ''li'', oprops = 0, ochildren = [Str ''x'']\<rparr>,
                \<lparr>otype = ''ul'', oprops = 1, ochildren = [Ref 0, Str ''b'', Str ''c'']\<rparr>,
                \<lparr>otype = ''ul'', oprops = 2, ochildren = [Ref 0, Str ''z'']\<rparr>],
      propss = [[], [], []]\<rparr>
     (Some (Element ''body'' [] []
        [Element ''ul'' [] [] [Element ''li'' [] [] [Text ''x'' []], Text ''b'' [], Text ''c'' []]]))
     (Ref 2) (Ref 1) None))) = [[], [], []]"
proof -
  let ?s = "\<lparr>vnodes = [\<lparr>otype = ''li'', oprops = 0, ochildren = [Str ''x'']\<rparr>,
                \<lparr>otype = ''ul'', oprops = 1, ochildren = [Ref 0, Str ''b'', Str ''c'']\<rparr>,
                \<lparr>otype = ''ul'', oprops = 2, ochildren = [Ref 0, Str ''z'']\<rparr>],
      propss = [[], [], []]\<rparr>"
  let ?p = "Some (Element ''body'' [] []
        [Element ''ul'' [] [] [Element ''li'' [] [] [Text ''x'' []], Text ''b'' [], Text ''c'' []]])"
  have run: "update_st 3 (page None) ?s ?p (Ref 2) (Ref 1) None =
   (\<lparr>vnodes = [\<lparr>otype = ''li'', oprops = 0, ochildren = [Str ''x'']\<rparr>,
                \<lparr>otype = ''ul'', oprops = 1, ochildren = [Ref 0, Str ''b'', Str ''c'']\<rparr>,
                \<lparr>otype = ''ul'', oprops = 2, ochildren = [Ref 0, Str ''z'']\<rparr>],
      propss = [[], [], [], [], []]\<rparr>,
    Some \<lparr>val = Some (Element ''body'' [] []
             [Element ''ul'' [] [] [Element ''li'' [] [] [Text ''x'' []], Text ''z'' []]]),
          ops = [ReplaceChild (Text ''z'' []) 1, RemoveChild 2], calls = [], raised = None\<rparr>)"
    by code_simp
  have "take (length (propss ?s)) (propss (fst (update_st 3 (page None) ?s ?p (Ref 2) (Ref 1) None))) =
      propss ?s"
    using update_leaves_vnodes_unchanged [of 3 "page None" ?s ?p "Ref 2" "Ref 1" None] by blast
  then show ?thesis using run by simp
qed

text \<open>
  C8. The specification states: with an old node present at a position, a new node that is the empty
  string makes \<open>update\<close> remove the live child at that index. It fails where the old
  node is itself the empty string, which is a Text node like any other: line 179 tests
  \<open>!oldNode\<close> first, the empty string is falsy, and \<open>update\<close> appends a new empty
  text node instead of removing the child at \<open>index\<close>. Shown on the children
  \<open>"a", "", "c"\<close> at index 1.
\<close>

theorem update_empty_old_string_appends:
  "update (page None) (Some (Element ''p'' [] [] [Text ''a'' [], Text [] [], Text ''c'' []]))
       (Some (VText [])) (Some (VText [])) (Some 1) =
     \<lparr>val = Some (Element ''p'' [] [] [Text ''a'' [], Text [] [], Text ''c'' [], Text [] []]),
      ops = [AppendChild (Text [] [])], calls = [], raised = None\<rparr>"
  by (simp add: evaluate)

text \<open>
  C8, amended. With an old node that is present and truthy (neither \<open>undefined\<close> nor
  the empty string, as line 179 tests it) and a live child at \<open>index\<close>, a new node that
  is the empty string is falsy, so \<open>update\<close> takes the branch of line 181: the one
  operation issued is the removal of the live child at \<open>index\<close>; nothing is replaced
  and no empty text node is created.
\<close>

theorem update_empty_string_removes:
  assumes "truthy_node oldNode" and "index < length cs"
  shows "update w (Some (Element t as ls cs)) (Some (VText [])) oldNode (Some index) =
           \<lparr>val = Some (Element t as ls (take index cs @ drop (Suc index) cs)),
            ops = [RemoveChild index], calls = [], raised = None\<rparr>"
  using assms by (simp add: update_absent_new did_def)

theorem update_empty_string_removes_witness:
  "truthy_node (Some (VText ''b'')) \<and> (1::nat) < length [Text ''a'' [], Text ''b'' [], Text ''c'' []]
   \<and> update (page None) (Some (Element ''p'' [] [] [Text ''a'' [], Text ''b'' [], Text ''c'' []]))
         (Some (VText [])) (Some (VText ''b'')) (Some 1) =
       \<lparr>val = Some (Element ''p'' [] [] [Text ''a'' [], Text ''c'' []]),
        ops = [RemoveChild 1], calls = [], raised = None\<rparr>"
  using update_empty_string_removes
    [of "Some (VText ''b'')" 1 "[Text ''a'' [], Text ''b'' [], Text ''c'' []]" "page None"
      "''p''" "[]" "[]"]
  by simp

text \<open>
  C9. A call of \<open>update\<close> without the index argument is the call with index 0. On a
  parent with the children \<open>c # cs\<close>, however many, a removal at the top level takes
  the first child \<open>c\<close> away and keeps \<open>cs\<close>, and a replacement puts the new node in
  the place of \<open>c\<close> and keeps \<open>cs\<close>.
\<close>

theorem update_default_index_first_child:
  "update w parent newNode oldNode None = update w parent newNode oldNode (Some 0)
   \<and> (truthy_node oldNode \<longrightarrow> \<not> truthy_node newNode \<longrightarrow>
        update w (Some (Element t as ls (c # cs))) newNode oldNode None =
          \<lparr>val = Some (Element t as ls cs), ops = [RemoveChild 0], calls = [], raised = None\<rparr>)
   \<and> (truthy_node (Some old) \<longrightarrow> truthy_node (Some new) \<longrightarrow> changed new old \<longrightarrow>
        raised (createElement w (Some new)) = None \<longrightarrow>
        (\<exists>n. val (createElement w (Some new)) = Some n \<and>
           update w (Some (Element t as ls (c # cs))) (Some new) (Some old) None =
             \<lparr>val = Some (Element t as ls (n # cs)),
              ops = ops (createElement w (Some new)) @ [ReplaceChild n 0], calls = [],
              raised = None\<rparr>))"
proof (intro conjI impI)
  show "update w parent newNode oldNode None = update w parent newNode oldNode (Some 0)"
    by (simp add: update.simps(1))
next
  assume "truthy_node oldNode" "\<not> truthy_node newNode"
  then show "update w (Some (Element t as ls (c # cs))) newNode oldNode None =
      \<lparr>val = Some (Element t as ls cs), ops = [RemoveChild 0], calls = [], raised = None\<rparr>"
    by (simp add: update.simps(1) update_absent_new did_def)
next
  assume a: "truthy_node (Some old)" "truthy_node (Some new)" "changed new old"
    and r: "raised (createElement w (Some new)) = None"
  obtain n where n: "val (createElement w (Some new)) = Some n"
    using r createElement_node by blast
  have "update w (Some (Element t as ls (c # cs))) (Some new) (Some old) None =
      \<lparr>val = Some (Element t as ls (n # cs)),
       ops = ops (createElement w (Some new)) @ [ReplaceChild n 0], calls = [], raised = None\<rparr>"
    using a r n
    by (simp add: update.simps(1) update_changed andThen_def Let_def did_def)
  then show "\<exists>n. val (createElement w (Some new)) = Some n \<and>
      update w (Some (Element t as ls (c # cs))) (Some new) (Some old) None =
        \<lparr>val = Some (Element t as ls (n # cs)),
         ops = ops (createElement w (Some new)) @ [ReplaceChild n 0], calls = [], raised = None\<rparr>"
    using n by blast
qed

theorem update_default_index_first_child_witness:
  "truthy_node (Some (VText ''a'')) \<and> \<not> truthy_node None
   \<and> update (page None) (Some (Element ''body'' [] [] [Text ''a'' [], Text ''b'' [], Text ''c'' []]))
        None (Some (VText ''a'')) None =
       \<lparr>val = Some (Element ''body'' [] [] [Text ''b'' [], Text ''c'' []]),
        ops = [RemoveChild 0], calls = [], raised = None\<rparr>
   \<and> truthy_node (Some (VText ''x'')) \<and> changed (VText ''x'') (VText ''a'')
   \<and> createElement (page None) (Some (VText ''x'')) = ok (Some (Text ''x'' []))
   \<and> update (page None) (Some (Element ''body'' [] [] [Text ''a'' [], Text ''b'' [], Text ''c'' []]))
        (Some (VText ''x'')) (Some (VText ''a'')) None =
       \<lparr>val = Some (Element ''body'' [] [] [Text ''x'' [], Text ''b'' [], Text ''c'' []]),
        ops = [ReplaceChild (Text ''x'' []) 0], calls = [], raised = None\<rparr>"
proof -
  have c: "changed (VText ''x'') (VText ''a'')" by (simp add: changed_def)
  show ?thesis
    using c update_default_index_first_child
      [of "page None" "Some (Element ''body'' [] [] [Text ''a'' [], Text ''b'' [], Text ''c'' []])"
        None "Some (VText ''a'')" "''body''" "[]" "[]" "Text ''a'' []"
        "[Text ''b'' [], Text ''c'' []]" "VText ''a''" "VText ''x''", THEN conjunct2]
    by simp
qed

text \<open>
  C10. In the loop of lines 190-192 a removal at step \<open>i\<close> deletes the live child that
  is at position \<open>i\<close> at that moment; the positions are not adjusted for the removals
  made before. Take an element without properties whose live children \<open>ks\<close> were
  rendered from the old children (\<open>createElement\<close> returned the live element), and new
  children that are the first \<open>n\<close> old ones, at least two fewer. Steps \<open>0 .. n - 1\<close>
  change nothing. Step \<open>n\<close> removes \<open>ks ! n\<close>,
  step \<open>n + 1\<close> then removes what was \<open>ks ! (n + 2)\<close>, and so on: the removals are issued
  at the positions \<open>n, n + 1, ...\<close>, every second trailing child survives
  (\<open>odd_positions (drop n ks)\<close> is not empty, so the trailing children are not what was
  removed), and the step that finds no child at its position ends the call with the
  TypeError of \<open>removeChild(undefined)\<close>.
\<close>

theorem update_shrinking_children:
  assumes "list_all plain olds" and "ty \<noteq> []" and "n + 2 \<le> length olds"
    and "raised (createElement w (Some (VElem ty [] olds))) = None"
    and "childNode parent index = val (createElement w (Some (VElem ty [] olds)))"
  shows "\<exists>ks. childNode parent index = Some (Element ty [] [] ks) \<and> length ks = length olds \<and>
           update w parent (Some (VElem ty [] (take n olds))) (Some (VElem ty [] olds)) (Some index) =
             \<lparr>val = putChild parent index
                      (Some (Element ty [] [] (take n ks @ odd_positions (drop n ks)))),
              ops = map RemoveChild [n ..< n + (length olds - n + 1) div 2], calls = [],
              raised = Some TypeError\<rparr> \<and>
           odd_positions (drop n ks) \<noteq> []"
proof -
  have pl: "plain (VElem ty [] olds)" using assms(1,2) by simp
  obtain ks where k: "val (createElement w (Some (VElem ty [] olds))) = Some (Element ty [] [] ks)"
      "map Some ks = map (\<lambda>c. val (createElement w (Some c))) olds"
      "\<forall>c \<in> set olds. raised (createElement w (Some c)) = None"
    using createElement_plain [OF pl assms(4)] by (metis res.select_convs(1))
  have E: "childNode parent index = Some (Element ty [] [] ks)" using assms(5) k(1) by simp
  have len: "length ks = length olds" using k(2) by (metis length_map)
  have p: "parent \<noteq> None" using E by (rule childNode_Some_parent)
  have kids: "\<And>c parent index. c \<in> set olds \<Longrightarrow>
        childNode parent index = val (createElement w (Some c)) \<Longrightarrow>
        update w parent (Some c) (Some c) (Some index) = ok parent"
    using assms(1) k(3) update_same_plain by (simp add: list_all_iff)
  have n: "n \<le> length olds" using assms(3) by simp
  have prefix: "update_loop w parent index (take n olds) olds 0 =
      update_loop w parent index (take n olds) olds n"
    by (rule update_loop_same_plain [OF kids E k(2) n]) simp_all
  have tr: "\<forall>j. n \<le> j \<and> j < length olds \<longrightarrow> truthy_node (item olds j)"
    using assms(1) by (auto simp: item_def list_all_length intro: plain_truthy)
  have E': "childNode parent index = Some (Element ty [] [] (take n ks @ drop n ks))"
    using E by simp
  have removals: "update_loop w parent index (take n olds) olds n =
      \<lparr>val = putChild parent index
               (Some (Element ty [] [] (take n ks @ odd_positions (drop n ks)))),
       ops = map RemoveChild [n ..< n + (length (drop n ks) + 1) div 2], calls = [],
       raised = (if n + (length (drop n ks) + 1) div 2 < length olds
                 then Some TypeError else None)\<rparr>"
    using n len tr by (intro update_loop_removals [OF E']) simp_all
  have lt: "n + (length olds - n + 1) div 2 < length olds" using assms(3) by linarith
  have "update w parent (Some (VElem ty [] (take n olds))) (Some (VElem ty [] olds)) (Some index) =
      update_loop w parent index (take n olds) olds 0"
    using p assms(2) by (auto simp add: update_elem_same updateProps_empty Let_def)
  then have "update w parent (Some (VElem ty [] (take n olds))) (Some (VElem ty [] olds)) (Some index) =
             \<lparr>val = putChild parent index
                      (Some (Element ty [] [] (take n ks @ odd_positions (drop n ks)))),
              ops = map RemoveChild [n ..< n + (length olds - n + 1) div 2], calls = [],
              raised = Some TypeError\<rparr>"
    using prefix removals lt len by simp
  moreover have "odd_positions (drop n ks) \<noteq> []"
    using assms(3) len by (intro odd_positions_nonempty) simp
  ultimately show ?thesis using E len by blast
qed

theorem update_shrinking_children_witness:
  "list_all plain [VText ''a'', VText ''b'', VText ''c'', VText ''d'']
   \<and> ''ul'' \<noteq> [] \<and> (2::nat) + 2 \<le> length [VText ''a'', VText ''b'', VText ''c'', VText ''d'']
   \<and> raised (createElement (page None) (Some (VElem ''ul'' []
         [VText ''a'', VText ''b'', VText ''c'', VText ''d'']))) = None
   \<and> childNode (Some (Element ''body'' [] []
         [Element ''ul'' [] [] [Text ''a'' [], Text ''b'' [], Text ''c'' [], Text ''d'' []]])) 0 =
       val (createElement (page None) (Some (VElem ''ul'' []
         [VText ''a'', VText ''b'', VText ''c'', VText ''d''])))
   \<and> update (page None) (Some (Element ''body'' [] []
         [Element ''ul'' [] [] [Text ''a'' [], Text ''b'' [], Text ''c'' [], Text ''d'' []]]))
       (Some (VElem ''ul'' [] [VText ''a'', VText ''b'']))
       (Some (VElem ''ul'' [] [VText ''a'', VText ''b'', VText ''c'', VText ''d''])) (Some 0) =
       \<lparr>val = Some (Element ''body'' [] []
                [Element ''ul'' [] [] [Text ''a'' [], Text ''b'' [], Text ''d'' []]]),
        ops = [RemoveChild 2], calls = [], raised = Some TypeError\<rparr>"
proof -
  let ?olds = "[VText ''a'', VText ''b'', VText ''c'', VText ''d'']"
  let ?body = "Some (Element ''body'' [] []
         [Element ''ul'' [] [] [Text ''a'' [], Text ''b'' [], Text ''c'' [], Text ''d'' []]])"
  have a: "list_all plain ?olds" "''ul'' \<noteq> []" "(2::nat) + 2 \<le> length ?olds" by simp_all
  have r: "raised (createElement (page None) (Some (VElem ''ul'' [] ?olds))) = None"
    by (simp add: evaluate)
  have c: "childNode ?body 0 = val (createElement (page None) (Some (VElem ''ul'' [] ?olds)))"
    by (simp add: evaluate)
  have e: "childNode ?body 0 =
      Some (Element ''ul'' [] [] [Text ''a'' [], Text ''b'' [], Text ''c'' [], Text ''d'' []])"
    by (simp add: item_def)
  have i: "[2 ..< 2 + (length ?olds - 2 + 1) div 2] = [2::nat]"
    by (simp add: upt_conv_Cons)
  obtain ks where ks: "childNode ?body 0 = Some (Element ''ul'' [] [] ks)"
    "update (page None) ?body (Some (VElem ''ul'' [] (take 2 ?olds))) (Some (VElem ''ul'' [] ?olds)) (Some 0) =
             \<lparr>val = putChild ?body 0
                      (Some (Element ''ul'' [] [] (take 2 ks @ odd_positions (drop 2 ks)))),
              ops = map RemoveChild [2 ..< 2 + (length ?olds - 2 + 1) div 2], calls = [],
              raised = Some TypeError\<rparr>"
    using update_shrinking_children [OF a r c] by blast
  have "ks = [Text ''a'' [], Text ''b'' [], Text ''c'' [], Text ''d'' []]"
    using ks(1) e by simp
  then show ?thesis using a r c ks(2) unfolding i by simp
qed

section \<open>Further properties of the specification\<close>

text \<open>
  X1. The names \<open>updateProps\<close> enumerates (lines 115-116) are the union of the names of
  \<open>newProps\<close> and \<open>oldProps\<close>, each once.
\<close>

theorem updateProps_keys_union:
  "set (Object_keys (Object_assign [] [newProps, oldProps])) =
     set (Object_keys newProps) \<union> set (Object_keys oldProps)
   \<and> distinct (Object_keys (Object_assign [] [newProps, oldProps]))"
  using fold_update_keys [of oldProps "fold (\<lambda>(k, v). AList.update k v) newProps []"]
    fold_update_keys [of newProps "[]"]
    fold_update_distinct [of "[]" "newProps @ oldProps"]
  by (simp add: Object_keys_def Object_assign_def)

theorem updateProps_keys_union_witness:
  "Object_keys (Object_assign [] [[(''id'', JStr ''x''), (''title'', JStr ''t'')],
       [(''title'', JStr ''u''), (''lang'', JStr ''en'')]]) = [''id'', ''title'', ''lang'']
   \<and> set (Object_keys (Object_assign [] [[(''id'', JStr ''x''), (''title'', JStr ''t'')],
       [(''title'', JStr ''u''), (''lang'', JStr ''en'')]])) =
       set (Object_keys [(''id'', JStr ''x''), (''title'', JStr ''t'')]) \<union>
       set (Object_keys [(''title'', JStr ''u''), (''lang'', JStr ''en'')])"
proof -
  have "Object_keys (Object_assign [] [[(''id'', JStr ''x''), (''title'', JStr ''t'')],
       [(''title'', JStr ''u''), (''lang'', JStr ''en'')]]) = [''id'', ''title'', ''lang'']"
    by code_simp
  then show ?thesis
    using updateProps_keys_union [of "[(''id'', JStr ''x''), (''title'', JStr ''t'')]"
        "[(''title'', JStr ''u''), (''lang'', JStr ''en'')]"]
    by blast
qed

text \<open>
  X2. Type-change replacement (lines 183-184). When both nodes are present and changed
  and the parent has a child at \<open>index\<close>, that child is replaced by the node
  \<open>createElement\<close> returns for the new node; nothing of the old live child is kept. In
  the example an old \<open>div\<close> with an \<open>id\<close> is replaced by a \<open>span\<close> without it.
\<close>

theorem update_changed_replaces:
  assumes "truthy_node (Some old)" and "truthy_node (Some new)" and "changed new old"
    and "raised (createElement w (Some new)) = None" and "index < length cs"
  shows "\<exists>n. createElement w (Some new) =
             \<lparr>val = Some n, ops = ops (createElement w (Some new)), calls = [], raised = None\<rparr> \<and>
           update w (Some (Element t as ls cs)) (Some new) (Some old) (Some index) =
             \<lparr>val = Some (Element t as ls (cs[index := n])),
              ops = ops (createElement w (Some new)) @ [ReplaceChild n index], calls = [],
              raised = None\<rparr>"
proof -
  note r = assms(4)
  then obtain n where n: "val (createElement w (Some new)) = Some n"
    using createElement_node by blast
  have "update w (Some (Element t as ls cs)) (Some new) (Some old) (Some index) =
      \<lparr>val = Some (Element t as ls (cs[index := n])),
       ops = ops (createElement w (Some new)) @ [ReplaceChild n index], calls = [], raised = None\<rparr>"
    using assms r n by (simp add: update_changed andThen_def Let_def did_def)
  moreover have "createElement w (Some new) =
      \<lparr>val = Some n, ops = ops (createElement w (Some new)), calls = [], raised = None\<rparr>"
    using r n by (intro res.equality) simp_all
  ultimately show ?thesis by blast
qed

theorem update_changed_replaces_witness:
  "truthy_node (Some (h ''div'' (Some [(''id'', JStr ''d'')]) [VText ''x'']))
   \<and> truthy_node (Some (h ''span'' None [VText ''x'']))
   \<and> changed (h ''span'' None [VText ''x'']) (h ''div'' (Some [(''id'', JStr ''d'')]) [VText ''x''])
   \<and> createElement (page None) (Some (h ''span'' None [VText ''x''])) =
       \<lparr>val = Some (Element ''span'' [] [] [Text ''x'' []]), ops = [AppendChild (Text ''x'' [])],
        calls = [], raised = None\<rparr>
   \<and> (0::nat) < length [Element ''div'' [(''id'', JStr ''d'')] [] [Text ''x'' []]]
   \<and> val (update (page None)
          (Some (Element ''body'' [] [] [Element ''div'' [(''id'', JStr ''d'')] [] [Text ''x'' []]]))
          (Some (h ''span'' None [VText ''x'']))
          (Some (h ''div'' (Some [(''id'', JStr ''d'')]) [VText ''x''])) (Some 0)) =
       Some (Element ''body'' [] [] [Element ''span'' [] [] [Text ''x'' []]])"
proof -
  let ?new = "h ''span'' None [VText ''x'']"
  let ?old = "h ''div'' (Some [(''id'', JStr ''d'')]) [VText ''x'']"
  have a: "truthy_node (Some ?old)" "truthy_node (Some ?new)" "changed ?new ?old"
    by (simp_all add: h_def changed_def)
  have c: "createElement (page None) (Some ?new) =
       \<lparr>val = Some (Element ''span'' [] [] [Text ''x'' []]), ops = [AppendChild (Text ''x'' [])],
        calls = [], raised = None\<rparr>"
    by (simp add: evaluate)
  have r: "raised (createElement (page None) (Some ?new)) = None" unfolding c by simp
  have l: "(0::nat) < length [Element ''div'' [(''id'', JStr ''d'')] [] [Text ''x'' []]]" by simp
  obtain n where n: "createElement (page None) (Some ?new) =
        \<lparr>val = Some n, ops = ops (createElement (page None) (Some ?new)),
         calls = [], raised = None\<rparr>"
      "update (page None)
          (Some (Element ''body'' [] [] [Element ''div'' [(''id'', JStr ''d'')] [] [Text ''x'' []]]))
          (Some ?new) (Some ?old) (Some 0) =
        \<lparr>val = Some (Element ''body'' [] []
                 ([Element ''div'' [(''id'', JStr ''d'')] [] [Text ''x'' []]][0 := n])),
         ops = ops (createElement (page None) (Some ?new)) @ [ReplaceChild n 0],
         calls = [], raised = None\<rparr>"
    using update_changed_replaces [OF a r l, of "''body''" "[]" "[]"] by blast
  have "n = Element ''span'' [] [] [Text ''x'' []]"
    using n(1) unfolding c by simp
  then have v: "val (update (page None)
          (Some (Element ''body'' [] [] [Element ''div'' [(''id'', JStr ''d'')] [] [Text ''x'' []]]))
          (Some ?new) (Some ?old) (Some 0)) =
       Some (Element ''body'' [] [] [Element ''span'' [] [] [Text ''x'' []]])"
    using n(2) by simp
  show ?thesis by (intro conjI a c l v)
qed

text \<open>
  X3. Positional misalignment (lines 187-192). Children are matched by position: with
  the old children \<open>[a, b]\<close> and the new children \<open>[x, a, b]\<close>, three different non-empty
  strings, the loop replaces the child at 0 by \<open>x\<close>, replaces the child at 1 by \<open>a\<close> and
  appends \<open>b\<close>: three operations where an insertion at the front would do.
\<close>

theorem update_front_insertion:
  assumes "a \<noteq> []" and "b \<noteq> []" and "x \<noteq> []" and "x \<noteq> a" and "a \<noteq> b" and "t \<noteq> []"
  shows "update w (Some (Element p as ls [Element t [] [] [Text a [], Text b []]]))
           (Some (VElem t [] [VText x, VText a, VText b]))
           (Some (VElem t [] [VText a, VText b])) None =
         \<lparr>val = Some (Element p as ls [Element t [] [] [Text x [], Text a [], Text b []]]),
          ops = [ReplaceChild (Text x []) 0, ReplaceChild (Text a []) 1, AppendChild (Text b [])],
          calls = [], raised = None\<rparr>"
proof -
  let ?e0 = "Some (Element t [] [] [Text a [], Text b []])"
  let ?e1 = "Some (Element t [] [] [Text x [], Text b []])"
  let ?e2 = "Some (Element t [] [] [Text x [], Text a []])"
  let ?e3 = "Some (Element t [] [] [Text x [], Text a [], Text b []])"
  have u0: "update w ?e0 (Some (VText x)) (Some (VText a)) (Some 0) =
      did (ReplaceChild (Text x []) 0) ?e1"
    using assms by (simp add: update_changed changed_def)
  have u1: "update w ?e1 (Some (VText a)) (Some (VText b)) (Some (Suc 0)) =
      did (ReplaceChild (Text a []) (Suc 0)) ?e2"
    using assms by (simp add: update_changed changed_def)
  have u2: "update w ?e2 (Some (VText b)) None (Some (Suc (Suc 0))) =
      did (AppendChild (Text b [])) ?e3"
    by (simp add: update_absent_old)
  have loop: "update_loop w (Some (Element p as ls [Element t [] [] [Text a [], Text b []]])) 0
      [VText x, VText a, VText b] [VText a, VText b] 0 =
      \<lparr>val = Some (Element p as ls [Element t [] [] [Text x [], Text a [], Text b []]]),
       ops = [ReplaceChild (Text x []) 0, ReplaceChild (Text a []) 1, AppendChild (Text b [])],
       calls = [], raised = None\<rparr>"
    by (simp add: update_loop_step update_loop_done item_def u0 u1 u2 andThen_did ok_def
        numeral_3_eq_3 numeral_2_eq_2)
  show ?thesis using assms(6) loop
    by (simp add: update.simps(1) update_elem_same updateProps_empty Let_def item_def)
qed

theorem update_front_insertion_witness:
  "''A'' \<noteq> [] \<and> ''B'' \<noteq> [] \<and> ''X'' \<noteq> [] \<and> ''X'' \<noteq> ''A'' \<and> ''A'' \<noteq> ''B'' \<and> ''ul'' \<noteq> []
   \<and> update (page None) (Some (Element ''body'' [] [] [Element ''ul'' [] [] [Text ''A'' [], Text ''B'' []]]))
           (Some (VElem ''ul'' [] [VText ''X'', VText ''A'', VText ''B'']))
           (Some (VElem ''ul'' [] [VText ''A'', VText ''B''])) None =
         \<lparr>val = Some (Element ''body'' [] []
                  [Element ''ul'' [] [] [Text ''X'' [], Text ''A'' [], Text ''B'' []]]),
          ops = [ReplaceChild (Text ''X'' []) 0, ReplaceChild (Text ''A'' []) 1,
                 AppendChild (Text ''B'' [])],
          calls = [], raised = None\<rparr>"
  using update_front_insertion [of "''A''" "''B''" "''X''" "''ul''" "page None" "''body''" "[]" "[]"]
  by simp

text \<open>
  X4. Materialisation (lines 142-152). On a tree whose event properties hold functions
  and whose tags and attribute names the document accepts, \<open>createElement\<close> returns a
  node and raises nothing, and it never calls \<open>updateProp\<close>.
\<close>

theorem createElement_well_formed_returns:
  assumes "invocable_handlers T" and "accepted w T"
  shows "\<exists>n. createElement w (Some T) =
           \<lparr>val = Some n, ops = ops (createElement w (Some T)), calls = [], raised = None\<rparr>"
proof -
  have r: "raised (createElement w (Some T)) = None"
    using assms by (rule createElement_returns)
  then obtain n where n: "val (createElement w (Some T)) = Some n"
    using createElement_node by blast
  have "createElement w (Some T) =
      \<lparr>val = Some n, ops = ops (createElement w (Some T)), calls = [], raised = None\<rparr>"
    using r n by (intro res.equality) simp_all
  then show ?thesis by blast
qed

theorem createElement_well_formed_returns_witness:
  "invocable_handlers (h ''a'' (Some [(''href'', JStr ''/''), (''onClick'', JRef 7)]) [VText ''home''])
   \<and> accepted (page None)
       (h ''a'' (Some [(''href'', JStr ''/''), (''onClick'', JRef 7)]) [VText ''home''])
   \<and> createElement (page None) (Some (h ''a'' (Some [(''href'', JStr ''/''), (''onClick'', JRef 7)])
        [VText ''home''])) =
       \<lparr>val = Some (Element ''a'' [(''href'', JStr ''/'')] [(''click'', JRef 7)] [Text ''home'' []]),
        ops = [SetAttribute ''href'' (JStr ''/''), AddEventListener ''click'' (JRef 7),
               AppendChild (Text ''home'' [])],
        calls = [], raised = None\<rparr>"
proof -
  let ?T = "h ''a'' (Some [(''href'', JStr ''/''), (''onClick'', JRef 7)]) [VText ''home'']"
  have hh: "invocable_handlers ?T"
    by (simp add: evaluate)
  have ac: "accepted (page None) ?T"
    by (simp add: evaluate)
  obtain n where n: "createElement (page None) (Some ?T) =
      \<lparr>val = Some n, ops = ops (createElement (page None) (Some ?T)), calls = [],
       raised = None\<rparr>"
    using createElement_well_formed_returns [OF hh ac] by blast
  have v: "val (createElement (page None) (Some ?T)) =
      Some (Element ''a'' [(''href'', JStr ''/'')] [(''click'', JRef 7)] [Text ''home'' []])"
    "ops (createElement (page None) (Some ?T)) =
      [SetAttribute ''href'' (JStr ''/''), AddEventListener ''click'' (JRef 7),
       AppendChild (Text ''home'' [])]"
    by (simp_all add: evaluate)
  have c: "createElement (page None) (Some ?T) =
       \<lparr>val = Some (Element ''a'' [(''href'', JStr ''/'')] [(''click'', JRef 7)] [Text ''home'' []]),
        ops = [SetAttribute ''href'' (JStr ''/''), AddEventListener ''click'' (JRef 7),
               AppendChild (Text ''home'' [])],
        calls = [], raised = None\<rparr>"
    using n v by (metis res.select_convs(1))
  show ?thesis by (intro conjI hh ac c)
qed

text \<open>
  X5. The loop of \<open>updateProps\<close> (lines 115-118). A call of \<open>updateProps\<close> that returns
  normally has invoked \<open>updateProp\<close> exactly once for every name that is a key of
  \<open>newProps\<close> or of \<open>oldProps\<close>, and for no other name. (In a page that binds no
  \<open>newVal\<close> a call returns normally only when there is no key.) Shown in a page that
  binds \<open>newVal\<close> to an object.
\<close>

theorem updateProps_calls_each_key:
  assumes "raised (updateProps w target newProps (Some oldProps)) = None"
  shows "distinct (map fst (calls (updateProps w target newProps (Some oldProps)))) \<and>
         set (map fst (calls (updateProps w target newProps (Some oldProps)))) =
           set (Object_keys newProps) \<union> set (Object_keys oldProps)"
proof -
  let ?ks = "Object_keys (Object_assign [] [newProps, oldProps])"
  have c: "calls (updateProps w target newProps (Some oldProps)) =
      map (\<lambda>name. (name, get newProps name, get oldProps name)) ?ks"
    using assms unfolding updateProps_def Let_def option.case
    by (rule forEach_calls_map [rotated]) (rule updateProp_calls)
  have n: "map fst (calls (updateProps w target newProps (Some oldProps))) = ?ks"
    unfolding c by (simp add: comp_def)
  have d: "distinct ?ks"
    using fold_update_distinct [of "[]" "newProps @ oldProps"]
    by (simp add: Object_keys_def Object_assign_def)
  have k: "set ?ks = set (Object_keys newProps) \<union> set (Object_keys oldProps)"
    using fold_update_keys [of "newProps @ oldProps" "[]"]
    by (simp add: Object_keys_def Object_assign_def image_Un)
  show ?thesis unfolding n using d k by simp
qed

theorem updateProps_calls_each_key_witness:
  "raised (updateProps (page (Some (JRef 0))) (Some (Element ''div'' [(''title'', JStr ''u'')] [] []))
       [(''id'', JStr ''x''), (''title'', JStr ''t'')] (Some [(''title'', JStr ''u'')])) = None
   \<and> calls (updateProps (page (Some (JRef 0))) (Some (Element ''div'' [(''title'', JStr ''u'')] [] []))
       [(''id'', JStr ''x''), (''title'', JStr ''t'')] (Some [(''title'', JStr ''u'')])) =
       [(''id'', JStr ''x'', JUndefined), (''title'', JStr ''t'', JStr ''u'')]
   \<and> set (map fst (calls (updateProps (page (Some (JRef 0)))
       (Some (Element ''div'' [(''title'', JStr ''u'')] [] []))
       [(''id'', JStr ''x''), (''title'', JStr ''t'')] (Some [(''title'', JStr ''u'')])))) =
       set (Object_keys [(''id'', JStr ''x''), (''title'', JStr ''t'')]) \<union>
       set (Object_keys [(''title'', JStr ''u'')])"
proof -
  let ?u = "updateProps (page (Some (JRef 0))) (Some (Element ''div'' [(''title'', JStr ''u'')] [] []))
       [(''id'', JStr ''x''), (''title'', JStr ''t'')] (Some [(''title'', JStr ''u'')])"
  have r: "raised ?u = None"
    by (simp add: evaluate strict_eq_def)
  have c: "calls ?u = [(''id'', JStr ''x'', JUndefined), (''title'', JStr ''t'', JStr ''u'')]"
    by (simp add: evaluate strict_eq_def)
  note t = updateProps_calls_each_key [OF r, THEN conjunct2]
  show ?thesis by (intro conjI r c t)
qed

end
